theory Spec2Isabelle
  imports Main
begin

section \<open>JavaScript strings\<close>

text \<open>
  A JavaScript string is a sequence of UTF-16 code units, and \<open>.length\<close>, \<open>split\<close>,
  \<open>trim\<close>, \<open>includes\<close> and \<open>+\<close> all work on code units. A string is modelled as the
  list of its code units, each a natural number; \<open>js\<close> turns an ASCII literal of the
  source into that list.
\<close>

type_synonym jsstring = "nat list"

definition js :: "string \<Rightarrow> jsstring" where
  "js s = map of_char s"

text \<open>
  The characters that \<open>String.prototype.trim\<close> strips and that the regular
  expression class \<open>\s\<close> matches (ECMAScript WhiteSpace and LineTerminator): U+0009 to
  U+000D, U+0020, U+00A0, U+1680, U+2000 to U+200A, U+2028, U+2029, U+202F, U+205F,
  U+3000 and U+FEFF.
\<close>

definition isWhiteSpace :: "nat \<Rightarrow> bool" where
  "isWhiteSpace c =
     ((9 \<le> c \<and> c \<le> 13) \<or> c = 32 \<or> c = 160 \<or> c = 5760 \<or> (8192 \<le> c \<and> c \<le> 8202)
      \<or> c = 8232 \<or> c = 8233 \<or> c = 8239 \<or> c = 8287 \<or> c = 12288 \<or> c = 65279)"

text \<open>The character class \<open>[.!?]\<close> of the sentence split.\<close>

definition isTerminator :: "nat \<Rightarrow> bool" where
  "isTerminator c = (c = 46 \<or> c = 33 \<or> c = 63)"

text \<open>\<open>s.trim()\<close>: white space removed at both ends.\<close>

definition trim :: "jsstring \<Rightarrow> jsstring" where
  "trim s = rev (dropWhile isWhiteSpace (rev (dropWhile isWhiteSpace s)))"

text \<open>
  \<open>s.split(/[c]+/)\<close> for a character class \<open>c\<close>, here the predicate \<open>P\<close>: the string is cut
  at every maximal run of characters of the class, the runs are dropped, and a run at
  the start or at the end leaves an empty string there. The empty string gives one
  empty piece. A piece starts empty where a run begins, after which the rest of the run
  is skipped; any other character goes to the front of the piece that follows it. It serves \<open>text.split(/[.!?]+/)\<close> and \<open>text.split(/\s+/)\<close>.
\<close>

function splitRuns :: "(nat \<Rightarrow> bool) \<Rightarrow> jsstring \<Rightarrow> jsstring list" where
  "splitRuns P [] = [[]]"
| "splitRuns P (c # cs) =
     (if P c then [] # splitRuns P (dropWhile P cs)
      else
        (case splitRuns P cs of
           [] \<Rightarrow> [[c]]
         | w # ws \<Rightarrow> (c # w) # ws))"
  by pat_completeness auto

termination
  by (relation "measure (\<lambda>(P, s). length s)")
     (auto simp: length_dropWhile_le le_imp_less_Suc)

text \<open>
  \<open>s.split(' ')\<close> with a one-character separator: the string is cut at every occurrence
  of the separator, so two separators in a row leave an empty piece between them.
\<close>

fun splitChar :: "nat \<Rightarrow> jsstring \<Rightarrow> jsstring list" where
  "splitChar sep [] = [[]]"
| "splitChar sep (c # cs) =
     (if c = sep then [] # splitChar sep cs
      else
        (case splitChar sep cs of
           [] \<Rightarrow> [[c]]
         | w # ws \<Rightarrow> (c # w) # ws))"

text \<open>\<open>parts.join(sep)\<close>.\<close>

fun join :: "jsstring \<Rightarrow> jsstring list \<Rightarrow> jsstring" where
  "join sep [] = []"
| "join sep [p] = p"
| "join sep (p # q # ps) = p @ sep @ join sep (q # ps)"

text \<open>\<open>s.includes(k)\<close>: \<open>k\<close> occurs in \<open>s\<close> as a contiguous substring.\<close>

fun startsWith :: "jsstring \<Rightarrow> jsstring \<Rightarrow> bool" where
  "startsWith s [] = True"
| "startsWith [] (k # ks) = False"
| "startsWith (c # cs) (k # ks) = (c = k \<and> startsWith cs ks)"

fun includes_js :: "jsstring \<Rightarrow> jsstring \<Rightarrow> bool" where
  "includes_js [] k = (k = [])"
| "includes_js (c # cs) k = (startsWith (c # cs) k \<or> includes_js cs k)"

section \<open>The chunker of process-document\<close>

text \<open>
  \<open>createTextChunks(text, maxChunkSize)\<close>. The two loops of the source thread the list of
  finished chunks and the buffer being filled; each is a recursive function over the
  pieces still to read, with that pair as its state. A string of the source is truthy
  when it is not empty.
\<close>

text \<open>The inner loop, over the words of a sentence longer than the bound.\<close>

fun wordLoop :: "nat \<Rightarrow> jsstring list \<Rightarrow> jsstring list \<times> jsstring \<Rightarrow> jsstring list \<times> jsstring" where
  "wordLoop maxChunkSize [] (chunks, wordChunk) = (chunks, wordChunk)"
| "wordLoop maxChunkSize (word # words) (chunks, wordChunk) =
     (let (chunks1, wordChunk1) =
            (if length wordChunk + length word + 1 > maxChunkSize then
               (if wordChunk \<noteq> [] then (chunks @ [trim wordChunk], [])
                else (chunks, wordChunk))
             else (chunks, wordChunk))
      in wordLoop maxChunkSize words
           (chunks1, wordChunk1 @ (if wordChunk1 \<noteq> [] then js '' '' else []) @ word))"

text \<open>The outer loop, over the sentences.\<close>

fun sentenceLoop :: "nat \<Rightarrow> jsstring list \<Rightarrow> jsstring list \<times> jsstring \<Rightarrow> jsstring list \<times> jsstring" where
  "sentenceLoop maxChunkSize [] (chunks, currentChunk) = (chunks, currentChunk)"
| "sentenceLoop maxChunkSize (sentence # sentences) (chunks, currentChunk) =
     (let trimmedSentence = trim sentence in
      if trimmedSentence = [] then sentenceLoop maxChunkSize sentences (chunks, currentChunk)
      else if length currentChunk + length trimmedSentence + 1 > maxChunkSize then
        (let (chunks1, currentChunk1) =
               (if currentChunk \<noteq> [] then (chunks @ [trim currentChunk], [])
                else (chunks, currentChunk))
         in if length trimmedSentence > maxChunkSize then
              (let (chunks2, wordChunk) =
                     wordLoop maxChunkSize (splitChar 32 trimmedSentence) (chunks1, [])
               in sentenceLoop maxChunkSize sentences
                    (chunks2, if wordChunk \<noteq> [] then wordChunk else currentChunk1))
            else sentenceLoop maxChunkSize sentences (chunks1, trimmedSentence))
      else sentenceLoop maxChunkSize sentences
             (chunks,
              currentChunk @ (if currentChunk \<noteq> [] then js ''. '' else []) @ trimmedSentence))"

definition createTextChunks :: "jsstring \<Rightarrow> nat \<Rightarrow> jsstring list" where
  "createTextChunks text maxChunkSize =
     (let sentences = filter (\<lambda>s. length (trim s) > 0) (splitRuns isTerminator text);
          (chunks, currentChunk) = sentenceLoop maxChunkSize sentences ([], [])
      in if trim currentChunk \<noteq> [] then chunks @ [trim currentChunk] else chunks)"

section \<open>The store\<close>

text \<open>
  The tables the functions read and write through the Supabase client. A table is the
  list of its rows in the store's order. A JSON value of a \<open>metadata\<close> column is a
  \<open>jval\<close>, a JSON object the list of its keys and values.
\<close>

datatype jval = JBool bool | JNum nat | JStr jsstring

type_synonym jobject = "(string \<times> jval) list"

record document =
  doc_id :: nat
  user_id :: nat
  title :: jsstring
  file_name :: jsstring
  file_type :: jsstring
  file_size :: nat
  content :: "jsstring option"
  metadata :: jobject

record document_chunk =
  chunk_document_id :: nat
  chunk_content :: jsstring
  chunk_index :: nat
  chunk_size :: nat

record message =
  conversation_id :: nat
  role :: jsstring
  message_content :: jsstring
  created_at :: nat

record database =
  documents :: "document list"
  document_chunks :: "document_chunk list"
  messages :: "message list"

definition emptyDb :: database where
  "emptyDb = \<lparr>documents = [], document_chunks = [], messages = []\<rparr>"

text \<open>
  \<open>supabase.from('documents').update(values).eq('id', documentId)\<close>, when the store
  applies it: every row with that id gets the values, the other rows stay.
\<close>

definition updateDocuments :: "database \<Rightarrow> nat \<Rightarrow> (document \<Rightarrow> document) \<Rightarrow> database" where
  "updateDocuments db documentId values =
     db\<lparr>documents := map (\<lambda>d. if doc_id d = documentId then values d else d) (documents db)\<rparr>"

section \<open>Upload: the record creation of uploadFile\<close>

record upload_file =
  name :: jsstring
  mime_type :: jsstring
  byte_size :: nat

text \<open>
  Modelled from the spec: the schema of the \<open>documents\<close> table is not among the sources.
  The insert of \<open>uploadFile\<close> names no \<open>id\<close> and no \<open>content\<close>: the store assigns the id
  (here the next row number, which no earlier row has) and the record exists with null
  content (spec 3 and 4.4). \<open>fileName\<close> is the generated storage name and \<open>filePath\<close>
  the path under the user's folder.
\<close>

definition insertDocument :: "database \<Rightarrow> nat \<Rightarrow> upload_file \<Rightarrow> jsstring \<Rightarrow> jsstring \<Rightarrow> database" where
  "insertDocument db user f fileName filePath =
     db\<lparr>documents := documents db @
        [\<lparr>doc_id = length (documents db),
          user_id = user,
          title = name f,
          file_name = fileName,
          file_type = mime_type f,
          file_size = byte_size f,
          content = None,
          metadata = [(''original_name'', JStr (name f)), (''storage_path'', JStr filePath)]\<rparr>]\<rparr>"

section \<open>Ingestion: the process-document function\<close>

text \<open>
  The file \<open>supabase/functions/process-document/index.ts\<close> holds two revisions of the
  function, one after the other. The model follows the second (from line 199 on), with
  the extractors for PDF and DOCX; the chunker is the same in both.
\<close>

text \<open>
  The request body \<open>{documentId, filePath, fileName, fileType}\<close>. \<open>fileType\<close> is \<open>None\<close>
  when the body has no such key (the value is then \<open>undefined\<close>).
\<close>

record request =
  http_method :: string
  documentId :: nat
  filePath :: jsstring
  fileName :: jsstring
  fileType :: "jsstring option"

text \<open>
  The downloaded blob, with what the libraries give on it: its text, its size, the
  pages of the PDF parser (each the \<open>str\<close> of its text items) and the raw text of the
  DOCX reader; \<open>Inl\<close> is the message of the error the library throws.
\<close>

record blob =
  blob_text :: jsstring
  blob_size :: nat
  pdf_pages :: "jsstring + jsstring list list"
  docx_value :: "jsstring + jsstring"

text \<open>
  What the collaborators answer during one invocation: the download (\<open>Inl\<close> the message
  of \<open>downloadError\<close>), the \<open>error\<close> of the three writes (\<open>None\<close> when the store applies
  the write) and the clock.
\<close>

record environment =
  download :: "jsstring + blob"
  update_error :: "jsstring option"
  chunks_error :: "jsstring option"
  mark_error :: "jsstring option"
  now :: jsstring

datatype body =
    Null
  | Processed nat nat nat
  | ExtractionFailed jsstring jsstring
  | Failed jsstring

text \<open>
  \<open>Processed documentId extractedLength chunksCreated\<close> is the body
  \<open>{success: true, ...}\<close>, \<open>ExtractionFailed error details\<close> the body
  \<open>{success: false, error, details}\<close> and \<open>Failed error\<close> the body \<open>{error}\<close>.
\<close>

record response =
  status :: nat
  body :: body

text \<open>A natural number in decimal, as a template literal prints it.\<close>

fun decimal :: "nat \<Rightarrow> jsstring" where
  "decimal n = (if n < 10 then [48 + n] else decimal (n div 10) @ [48 + n mod 10])"

declare decimal.simps [simp del]

definition newlines :: jsstring where
  "newlines = [10, 10]"

definition extractPdfText :: "blob \<Rightarrow> jsstring" where
  "extractPdfText fileData =
     (case pdf_pages fileData of
        Inl message \<Rightarrow> js ''PDF text extraction failed: '' @ message
      | Inr pages \<Rightarrow>
          (let fullText =
                 concat (map (\<lambda>items.
                   join (js '' '') (filter (\<lambda>str. str \<noteq> [] \<and> trim str \<noteq> []) items) @ newlines)
                   pages)
           in if trim fullText \<noteq> [] then trim fullText
              else js ''No text content could be extracted from this PDF.''))"

definition extractDocxText :: "blob \<Rightarrow> jsstring" where
  "extractDocxText fileData =
     (case docx_value fileData of
        Inl message \<Rightarrow> js ''DOCX text extraction failed: '' @ message
      | Inr v \<Rightarrow>
          if trim v \<noteq> [] then trim v
          else js ''No text content could be extracted from this DOCX file.'')"

text \<open>\<open>Math.round(fileSize / 1024)\<close>: a half rounds up.\<close>

definition fileSizeKB :: "blob \<Rightarrow> nat" where
  "fileSizeKB fileData = (blob_size fileData + 512) div 1024"

definition extractPptxText :: "blob \<Rightarrow> jsstring" where
  "extractPptxText fileData =
     js ''PowerPoint file: PPTX ('' @ decimal (fileSizeKB fileData) @ js ''KB)'' @ newlines
     @ js ''PPTX files contain rich formatting and multimedia content that requires specialized processing.''
     @ newlines
     @ js ''For text extraction from PowerPoint files, please:'' @ [10]
     @ js ''1. Save/export the presentation as PDF from PowerPoint'' @ [10]
     @ js ''2. Copy and paste text content into a text file'' @ [10]
     @ js ''3. Use PowerPoint'' @ [39] @ js ''s '' @ [34] @ js ''Save as Text'' @ [34]
     @ js '' option if available'' @ newlines
     @ js ''Alternatively, upload individual slides as images for OCR processing.''"

definition extractImageText :: "blob \<Rightarrow> jsstring \<Rightarrow> jsstring" where
  "extractImageText fileData imageName =
     js ''Image file: '' @ imageName @ js '' ('' @ decimal (fileSizeKB fileData) @ js ''KB)''
     @ newlines
     @ js ''This is an image file. For text extraction from images, consider:'' @ [10]
     @ js ''1. Using OCR tools like Google Vision API'' @ [10]
     @ js ''2. Converting the image to PDF with embedded text'' @ [10]
     @ js ''3. Manually transcribing important text content'' @ newlines
     @ js ''If this image contains charts, diagrams, or handwritten text, please provide a text description of the content.''"

text \<open>
  The message of the TypeError that \<open>fileType.startsWith\<close> throws when \<open>fileType\<close> is
  \<open>undefined\<close>, as the V8 engine of the Deno runtime words it.
\<close>

definition startsWithOfUndefined :: jsstring where
  "startsWithOfUndefined =
     js ''Cannot read properties of undefined (reading '' @ [39] @ js ''startsWith'' @ [39] @ js '')''"

text \<open>
  The dispatch on the declared type, lines 240 to 255. \<open>Inl\<close> is the message of an
  exception that leaves the dispatch, \<open>Inr\<close> the extracted text. An \<open>undefined\<close> type is
  equal to none of the four names, and the call of \<open>startsWith\<close> on it throws.
\<close>

definition extractText :: "request \<Rightarrow> blob \<Rightarrow> jsstring + jsstring" where
  "extractText req fileData =
     (case fileType req of
        None \<Rightarrow> Inl startsWithOfUndefined
      | Some t \<Rightarrow>
          if t = js ''text/plain'' then Inr (blob_text fileData)
          else if t = js ''application/pdf'' then Inr (extractPdfText fileData)
          else if t = js ''application/vnd.openxmlformats-officedocument.wordprocessingml.document''
            then Inr (extractDocxText fileData)
          else if t = js ''application/vnd.openxmlformats-officedocument.presentationml.presentation''
            then Inr (extractPptxText fileData)
          else if startsWith t (js ''image/'') then Inr (extractImageText fileData (fileName req))
          else Inr (js ''Unsupported file type: '' @ t))"

text \<open>The values of the two updates of the document.\<close>

definition processedValues :: "jsstring \<Rightarrow> jsstring \<Rightarrow> document \<Rightarrow> document" where
  "processedValues extractedText timestamp d =
     d\<lparr>content := Some extractedText,
       metadata := [(''processed'', JBool True),
                    (''processed_at'', JStr timestamp),
                    (''word_count'', JNum (length (splitRuns isWhiteSpace extractedText)))]\<rparr>"

definition failedValues :: "jsstring \<Rightarrow> jsstring \<Rightarrow> document \<Rightarrow> document" where
  "failedValues message timestamp d =
     d\<lparr>metadata := [(''processed'', JBool False),
                    (''processing_error'', JStr message),
                    (''processed_at'', JStr timestamp)]\<rparr>"

definition chunksData :: "nat \<Rightarrow> jsstring list \<Rightarrow> document_chunk list" where
  "chunksData docId chunks =
     map (\<lambda>(index, chunk).
            \<lparr>chunk_document_id = docId, chunk_content = chunk,
             chunk_index = index, chunk_size = length chunk\<rparr>)
         (enumerate 0 chunks)"

text \<open>
  The inner \<open>try\<close> block, after the download: extract, update the document, chunk and
  insert the chunks. \<open>Inl\<close> is the message of the exception that reaches the inner
  \<open>catch\<close>: one thrown by the dispatch, or the \<open>Failed to update document\<close> error. Both
  are thrown before any write is applied, so the store is then as it was.
\<close>

definition processDownloaded ::
  "database \<Rightarrow> request \<Rightarrow> environment \<Rightarrow> blob \<Rightarrow> jsstring + database \<times> response" where
  "processDownloaded db req env fileData =
     (case extractText req fileData of
        Inl message \<Rightarrow> Inl message
      | Inr extractedText \<Rightarrow>
          (case update_error env of
             Some message \<Rightarrow> Inl (js ''Failed to update document: '' @ message)
           | None \<Rightarrow>
               (let db1 = updateDocuments db (documentId req)
                            (processedValues extractedText (now env));
                    chunks = createTextChunks extractedText 1000;
                    db2 = (if length chunks > 0 \<and> chunks_error env = None
                           then db1\<lparr>document_chunks :=
                                  document_chunks db1 @ chunksData (documentId req) chunks\<rparr>
                           else db1)
                in Inr (db2,
                        \<lparr>status = 200,
                         body = Processed (documentId req) (length extractedText) (length chunks)\<rparr>))))"

text \<open>
  The handler. The inner \<open>catch\<close> issues the update that marks the attempt and does not
  look at its result; the outer \<open>catch\<close> answers 500 with the message of the error, or
  with a fixed text when the message is empty.
\<close>

definition serve :: "database \<Rightarrow> request \<Rightarrow> environment \<Rightarrow> database \<times> response" where
  "serve db req env =
     (if http_method req = ''OPTIONS'' then (db, \<lparr>status = 200, body = Null\<rparr>)
      else
        (case download env of
           Inl downloadError \<Rightarrow>
             (let message = js ''Failed to download file: '' @ downloadError
              in (db, \<lparr>status = 500,
                       body = Failed (if message \<noteq> [] then message
                                      else js ''An unexpected error occurred'')\<rparr>))
         | Inr fileData \<Rightarrow>
             (case processDownloaded db req env fileData of
                Inr result \<Rightarrow> result
              | Inl message \<Rightarrow>
                  ((if mark_error env = None
                    then updateDocuments db (documentId req) (failedValues message (now env))
                    else db),
                   \<lparr>status = 200,
                    body = ExtractionFailed (js ''Text extraction failed'') message\<rparr>))))"

section \<open>Chat: history and relevance selection\<close>

text \<open>
  The request body \<open>{message, conversationId, files}\<close>, of which the handler reads the
  first two, and the \<open>Authorization\<close> header that the caller sends with it, which the
  handler never reads. An id is a number in the model; \<open>chat_conversationId\<close> is \<open>None\<close>
  when the body carries none.
\<close>

record chat_request =
  chat_message :: jsstring
  chat_conversationId :: "nat option"
  authorization :: "jsstring option"

text \<open>
  The history query \<open>.eq('conversation_id', conversationId).order('created_at',
  {ascending: true}).limit(10)\<close> and the text built from its rows. The guard
  \<open>if (conversationId)\<close> sends no query for an absent id or a falsy one, which for a
  number is 0.
\<close>

definition historyMessages :: "database \<Rightarrow> nat \<Rightarrow> message list" where
  "historyMessages db conversationId =
     take 10 (sort_key created_at (filter (\<lambda>m. conversation_id m = conversationId) (messages db)))"

definition historyLine :: "message \<Rightarrow> jsstring" where
  "historyLine msg =
     (if role msg = js ''user'' then js ''User'' else js ''Assistant'') @ js '': ''
     @ message_content msg"

definition conversationHistory :: "database \<Rightarrow> nat option \<Rightarrow> jsstring" where
  "conversationHistory db conversationId =
     (case conversationId of
        None \<Rightarrow> []
      | Some cid \<Rightarrow>
          if cid = 0 then []
          else
            (let msgs = historyMessages db cid
             in if length msgs > 0 then join newlines (map historyLine msgs) else []))"

text \<open>
  The keyword filter, lines 62 to 67. \<open>toLowerCase\<close> stands for
  \<open>String.prototype.toLowerCase\<close>, whose Unicode tables are not modelled: the functions
  take it as a parameter. \<open>asciiLower\<close> is what it does on ASCII text.
\<close>

definition asciiLower :: "jsstring \<Rightarrow> jsstring" where
  "asciiLower s = map (\<lambda>c. if 65 \<le> c \<and> c \<le> 90 then c + 32 else c) s"

definition questionKeywords :: "(jsstring \<Rightarrow> jsstring) \<Rightarrow> jsstring \<Rightarrow> jsstring list" where
  "questionKeywords toLowerCase message =
     filter (\<lambda>word. length word > 3) (splitChar 32 (toLowerCase message))"

definition isRelevant :: "(jsstring \<Rightarrow> jsstring) \<Rightarrow> jsstring \<Rightarrow> document \<Rightarrow> bool" where
  "isRelevant toLowerCase message doc =
     (case content doc of
        None \<Rightarrow> False
      | Some c \<Rightarrow>
          if c = [] then False
          else list_ex (\<lambda>keyword. includes_js (toLowerCase c) keyword)
                 (questionKeywords toLowerCase message))"

text \<open>
  The Supabase client library is not among the sources. Of it the model keeps what the
  handler uses for the user lookup: \<open>createClient(url, key)\<close> makes a client that holds
  the key and no session, and \<open>auth.getUser()\<close>, called with no token, answers with the
  user of the client's session, so with no user when the client has none. The handler
  makes its client from the service key and calls \<open>getUser()\<close> on it, lines 17 to 21 and
  45 to 46.
\<close>

record supabase_client =
  client_key :: jsstring
  session_user :: "nat option"

definition createClient :: "jsstring \<Rightarrow> jsstring \<Rightarrow> supabase_client" where
  "createClient supabaseUrl supabaseKey = \<lparr>client_key = supabaseKey, session_user = None\<rparr>"

definition getUser :: "supabase_client \<Rightarrow> nat option" where
  "getUser supabase = session_user supabase"

text \<open>
  The documents the selector considers, lines 51 to 58, and those it selects, lines 60
  to 67. \<open>userId\<close> is the id of the user that the lookup answered with; the guard
  \<open>if (userId)\<close> skips the query and the filter for no user and for a falsy id.
\<close>

definition consideredDocs :: "database \<Rightarrow> nat option \<Rightarrow> document list" where
  "consideredDocs db userId =
     (case userId of
        None \<Rightarrow> []
      | Some u \<Rightarrow>
          if u = 0 then []
          else take 5 (filter (\<lambda>d. user_id d = u \<and> content d \<noteq> None) (documents db)))"

definition relevantDocs ::
  "(jsstring \<Rightarrow> jsstring) \<Rightarrow> database \<Rightarrow> nat option \<Rightarrow> jsstring \<Rightarrow> document list" where
  "relevantDocs toLowerCase db userId message =
     (let docs = consideredDocs db userId
      in if length docs > 0 then filter (isRelevant toLowerCase message) docs else [])"

text \<open>
  The selection of the handler: the client, the user lookup, then the documents that
  become the \<open>sources\<close> of the response.
\<close>

definition selectDocuments ::
  "(jsstring \<Rightarrow> jsstring) \<Rightarrow> database \<Rightarrow> jsstring \<Rightarrow> jsstring \<Rightarrow> chat_request \<Rightarrow> document list" where
  "selectDocuments toLowerCase db supabaseUrl supabaseServiceKey req =
     (let supabase = createClient supabaseUrl supabaseServiceKey;
          userId = getUser supabase
      in relevantDocs toLowerCase db userId (chat_message req))"

section \<open>Sequences of operations\<close>

text \<open>
  The operations that write a document record: the insert of an upload, and an
  invocation of the ingest function with what the collaborators answer to it. A run
  applies a list of them in order, from the first.
\<close>

datatype event = Upload nat upload_file jsstring jsstring | Ingest request environment

fun step :: "database \<Rightarrow> event \<Rightarrow> database" where
  "step db (Upload user f storedName path) = insertDocument db user f storedName path"
| "step db (Ingest req env) = fst (serve db req env)"

definition run :: "database \<Rightarrow> event list \<Rightarrow> database" where
  "run db evs = foldl step db evs"


section \<open>Notions the properties are stated with\<close>

text \<open>
  The content of a string: its characters that are neither white space nor one of the
  sentence terminators \<open>.\<close>, \<open>!\<close> and \<open>?\<close>, in order.
\<close>

definition contentChars :: "jsstring \<Rightarrow> jsstring" where
  "contentChars s = filter (\<lambda>c. \<not> isWhiteSpace c \<and> \<not> isTerminator c) s"

text \<open>
  The characters of a chunk other than white space and the full stop; a string in which
  every full stop is followed by a space and then a character that is not white space,
  as the full stop of a \<open>. \<close> between two sentences is; a string with no sentence
  terminator; a string with no \<open>!\<close> and no \<open>?\<close> whose full stops are all of that kind.
\<close>

definition chunkChars :: "jsstring \<Rightarrow> jsstring" where
  "chunkChars s = filter (\<lambda>c. \<not> isWhiteSpace c \<and> c \<noteq> 46) s"

fun separatorDots :: "jsstring \<Rightarrow> bool" where
  "separatorDots [] = True"
| "separatorDots (c # cs) =
     ((if c = 46
       then (case cs of d # e # r \<Rightarrow> d = 32 \<and> \<not> isWhiteSpace e | _ \<Rightarrow> False)
       else True)
      \<and> separatorDots cs)"

definition plain :: "jsstring \<Rightarrow> bool" where
  "plain s = (\<forall>c\<in>set s. \<not> isTerminator c)"

definition cleanChunk :: "jsstring \<Rightarrow> bool" where
  "cleanChunk s = (separatorDots s \<and> 33 \<notin> set s \<and> 63 \<notin> set s)"

text \<open>The finished chunks after the flush of a buffer, which a non-empty buffer joins.\<close>

definition flushed :: "jsstring list \<Rightarrow> jsstring \<Rightarrow> jsstring list" where
  "flushed chunks cur = (if cur \<noteq> [] then chunks @ [trim cur] else chunks)"

text \<open>
  A chunk within the bound the sentence loop keeps, one more than \<open>maxChunkSize\<close>, or
  with no space in it (one word), and the same for the buffer of the word loop, which
  keeps \<open>maxChunkSize\<close> itself.
\<close>

definition withinBound :: "nat \<Rightarrow> jsstring \<Rightarrow> bool" where
  "withinBound m c = (length c \<le> m + 1 \<or> 32 \<notin> set c)"

definition wordBuffer :: "nat \<Rightarrow> jsstring \<Rightarrow> bool" where
  "wordBuffer m wc = (length wc \<le> m \<or> 32 \<notin> set wc)"

text \<open>
  The two bodies of the ingest function that go with a write of the document.
\<close>

definition isProcessed :: "body \<Rightarrow> bool" where
  "isProcessed b = (case b of Processed i l n \<Rightarrow> True | _ \<Rightarrow> False)"

definition isExtractionFailed :: "body \<Rightarrow> bool" where
  "isExtractionFailed b = (case b of ExtractionFailed e m \<Rightarrow> True | _ \<Rightarrow> False)"

text \<open>
  The invocation writes the document: it took the success path, or it took the
  soft-failure path and the store applied the marking update.
\<close>

definition writesDocument :: "environment \<Rightarrow> body \<Rightarrow> bool" where
  "writesDocument env b = (isProcessed b \<or> (isExtractionFailed b \<and> mark_error env = None))"

text \<open>
  What an update of a document leaves of it: the keys of the new metadata, the keys of
  the upload gone, the other columns as they were.
\<close>

definition otherFieldsKept :: "document \<Rightarrow> document \<Rightarrow> bool" where
  "otherFieldsKept d d' =
     (title d' = title d \<and> file_name d' = file_name d \<and> file_type d' = file_type d
      \<and> file_size d' = file_size d)"

definition uploadKeysGone :: "document \<Rightarrow> bool" where
  "uploadKeysGone d' =
     (map_of (metadata d') ''original_name'' = None \<and> map_of (metadata d') ''storage_path'' = None)"

definition processingKeys :: "body \<Rightarrow> string list" where
  "processingKeys b =
     (if isProcessed b then [''processed'', ''processed_at'', ''word_count'']
      else [''processed'', ''processing_error'', ''processed_at''])"

definition metadataReplaced :: "string list \<Rightarrow> document \<Rightarrow> document \<Rightarrow> bool" where
  "metadataReplaced keys d d' =
     (map fst (metadata d') = keys \<and> uploadKeysGone d' \<and> otherFieldsKept d d')"

text \<open>
  The metadata of a document marks \<open>processed: true\<close> with no \<open>processing_error\<close>.
\<close>

definition processedOk :: "document \<Rightarrow> bool" where
  "processedOk d =
     (map_of (metadata d) ''processed'' = Some (JBool True)
      \<and> map_of (metadata d) ''processing_error'' = None)"

definition contentImpliesOk :: "database \<Rightarrow> bool" where
  "contentImpliesOk db = (\<forall>d\<in>set (documents db). content d \<noteq> None \<longrightarrow> processedOk d)"

definition okImpliesContent :: "database \<Rightarrow> bool" where
  "okImpliesContent db = (\<forall>d\<in>set (documents db). processedOk d \<longrightarrow> content d \<noteq> None)"

text \<open>
  An ingest takes the soft-failure path for a document that already has content, and a
  run in which that never happens.
\<close>

definition hasContent :: "database \<Rightarrow> nat \<Rightarrow> bool" where
  "hasContent db docId = list_ex (\<lambda>d. doc_id d = docId \<and> content d \<noteq> None) (documents db)"

definition failsOnContent :: "database \<Rightarrow> event \<Rightarrow> bool" where
  "failsOnContent db ev =
     (case ev of
        Upload user f storedName path \<Rightarrow> False
      | Ingest req env \<Rightarrow>
          isExtractionFailed (body (snd (serve db req env))) \<and> hasContent db (documentId req))"

fun neverFailsOnContent :: "database \<Rightarrow> event list \<Rightarrow> bool" where
  "neverFailsOnContent db [] = True"
| "neverFailsOnContent db (ev # evs) =
     (\<not> failsOnContent db ev \<and> neverFailsOnContent (step db ev) evs)"

text \<open>
  The ordinals of the stored chunks of a document, in the store's order; an ingest for
  a document that already has stored chunks, and a run in which that never happens.
\<close>

definition chunkIndices :: "nat \<Rightarrow> database \<Rightarrow> nat list" where
  "chunkIndices docId db =
     map chunk_index (filter (\<lambda>c. chunk_document_id c = docId) (document_chunks db))"

definition contiguous :: "nat list \<Rightarrow> bool" where
  "contiguous ns = (ns = [0..<length ns])"

definition reinserts :: "database \<Rightarrow> event \<Rightarrow> bool" where
  "reinserts db ev =
     (case ev of
        Upload user f storedName path \<Rightarrow> False
      | Ingest req env \<Rightarrow> chunkIndices (documentId req) db \<noteq> [])"

fun neverReinserts :: "database \<Rightarrow> event list \<Rightarrow> bool" where
  "neverReinserts db [] = True"
| "neverReinserts db (ev # evs) = (\<not> reinserts db ev \<and> neverReinserts (step db ev) evs)"

text \<open>
  The tokens of a question as the specification words them, delimited by white space;
  the keyword filter of the source is \<open>questionKeywords\<close> above, which cuts at the
  space character only.
\<close>

definition whitespaceTokens :: "jsstring \<Rightarrow> jsstring list" where
  "whitespaceTokens s = filter (\<lambda>t. t \<noteq> []) (splitRuns isWhiteSpace s)"


section \<open>Sample data\<close>

text \<open>
  A text file of one user, its upload and the request and answers of its ingestion, and
  the answers of a store that rejects both updates; a conversation of eleven messages;
  a document about biology of user 7, a chat request of that user and a question of two
  lines.
\<close>

definition sampleBlob :: blob where
  "sampleBlob = \<lparr>blob_text = js ''Hello world. This is a test.'', blob_size = 28,
                  pdf_pages = Inl [], docx_value = Inl []\<rparr>"

definition sampleDb :: database where
  "sampleDb = insertDocument emptyDb 7
     \<lparr>name = js ''notes.txt'', mime_type = js ''text/plain'', byte_size = 28\<rparr>
     (js ''1-abc.txt'') (js ''7/1-abc.txt'')"

definition sampleRequest :: request where
  "sampleRequest = \<lparr>http_method = ''POST'', documentId = 0, filePath = js ''7/1-abc.txt'',
                     fileName = js ''notes.txt'', fileType = Some (js ''text/plain'')\<rparr>"

definition sampleEnv :: environment where
  "sampleEnv = \<lparr>download = Inr sampleBlob, update_error = None, chunks_error = None,
                 mark_error = None, now = js ''2025-01-01T00:00:00.000Z''\<rparr>"

definition rejectingEnv :: environment where
  "rejectingEnv = sampleEnv\<lparr>update_error := Some (js ''timeout''), mark_error := Some (js ''timeout'')\<rparr>"

definition sampleUpload :: event where
  "sampleUpload = Upload 7
     \<lparr>name = js ''notes.txt'', mime_type = js ''text/plain'', byte_size = 28\<rparr>
     (js ''1-abc.txt'') (js ''7/1-abc.txt'')"

definition reingestEvents :: "event list" where
  "reingestEvents =
     [sampleUpload, Ingest sampleRequest sampleEnv,
      Ingest (sampleRequest\<lparr>fileType := None\<rparr>) sampleEnv]"

definition twiceIngested :: "event list" where
  "twiceIngested =
     [sampleUpload, Ingest sampleRequest sampleEnv, Ingest sampleRequest sampleEnv]"

definition chatMessage :: "nat \<Rightarrow> string \<Rightarrow> string \<Rightarrow> message" where
  "chatMessage t r c =
     \<lparr>conversation_id = 1, role = js r, message_content = js c, created_at = t\<rparr>"

definition longConversation :: "message list" where
  "longConversation =
     [chatMessage 1 ''user'' ''q1'', chatMessage 2 ''assistant'' ''a1'',
      chatMessage 3 ''user'' ''q2'', chatMessage 4 ''assistant'' ''a2'',
      chatMessage 5 ''user'' ''q3'', chatMessage 6 ''assistant'' ''a3'',
      chatMessage 7 ''user'' ''q4'', chatMessage 8 ''assistant'' ''a4'',
      chatMessage 9 ''user'' ''q5'', chatMessage 10 ''assistant'' ''a5'',
      chatMessage 11 ''user'' ''q6'']"

definition chatDb :: database where
  "chatDb = \<lparr>documents = [], document_chunks = [], messages = longConversation\<rparr>"

definition biologyDoc :: document where
  "biologyDoc =
     \<lparr>doc_id = 0, user_id = 7, title = js ''biology.txt'', file_name = js ''1-abc.txt'',
      file_type = js ''text/plain'', file_size = 27,
      content = Some (js ''Photosynthesis feeds plants''),
      metadata = [(''processed'', JBool True)]\<rparr>"

definition biologyDb :: database where
  "biologyDb = \<lparr>documents = [biologyDoc], document_chunks = [], messages = []\<rparr>"


definition twoLineQuestion :: jsstring where
  "twoLineQuestion = js ''explain'' @ [10] @ js ''photosynthesis''"


section \<open>Properties of the string functions\<close>

lemma contentChars_Nil [simp]: "contentChars [] = []"
  by (simp add: contentChars_def)

lemma contentChars_append: "contentChars (a @ b) = contentChars a @ contentChars b"
  by (simp add: contentChars_def)

lemma contentChars_dropWhile: "contentChars (dropWhile isWhiteSpace s) = contentChars s"
  by (induction s) (simp_all add: contentChars_def)

lemma contentChars_rev: "contentChars (rev s) = rev (contentChars s)"
  by (simp add: contentChars_def rev_filter)

lemma contentChars_trim: "contentChars (trim s) = contentChars s"
  by (simp add: trim_def contentChars_rev contentChars_dropWhile)

lemma contentChars_blank: "trim s = [] \<Longrightarrow> contentChars s = []"
  using contentChars_trim [of s] by (simp add: contentChars_def)

lemma splitRuns_nonempty: "splitRuns P s \<noteq> []"
proof (cases s)
  case Nil
  then show ?thesis by simp
next
  case (Cons c cs)
  then show ?thesis
    by (cases "splitRuns P cs") simp_all
qed

lemma splitChar_nonempty: "splitChar sep s \<noteq> []"
proof (cases s)
  case Nil
  then show ?thesis by simp
next
  case (Cons c cs)
  then show ?thesis
    by (cases "splitChar sep cs") simp_all
qed

lemma contentChars_terminators:
  "contentChars (dropWhile isTerminator s) = contentChars s"
  by (induction s) (simp_all add: contentChars_def)

lemma contentChars_splitRuns:
  "contentChars (concat (splitRuns isTerminator s)) = contentChars s"
proof (induction "isTerminator" s rule: splitRuns.induct)
  case 1
  show ?case by simp
next
  case (2 c cs)
  show ?case
  proof (cases "isTerminator c")
    case True
    with 2 have "contentChars (concat (splitRuns isTerminator (c # cs))) = contentChars cs"
      by (simp add: contentChars_terminators)
    with True show ?thesis by (simp add: contentChars_def)
  next
    case False
    obtain w ws where s: "splitRuns isTerminator cs = w # ws"
      using splitRuns_nonempty [of isTerminator cs]
      by (cases "splitRuns isTerminator cs") auto
    with 2 False have "contentChars (w @ concat ws) = contentChars cs"
      by simp
    with s False show ?thesis by (simp add: contentChars_def)
  qed
qed

lemma contentChars_splitChar:
  "contentChars (concat (splitChar 32 s)) = contentChars s"
proof (induction s)
  case Nil
  show ?case by simp
next
  case (Cons c cs)
  obtain w ws where s: "splitChar 32 cs = w # ws"
    using splitChar_nonempty [of 32 cs] by (cases "splitChar 32 cs") auto
  with Cons have "contentChars (w @ concat ws) = contentChars cs"
    by simp
  with s show ?case
    by (simp add: contentChars_def isWhiteSpace_def)
qed

lemma contentChars_sentences:
  "contentChars (concat (filter (\<lambda>s. trim s \<noteq> []) xs)) = contentChars (concat xs)"
  by (induction xs) (auto simp: contentChars_append contentChars_blank)

lemma contentChars_space: "contentChars (js '' '') = []"
  by (simp add: contentChars_def js_def isWhiteSpace_def)

lemma contentChars_separator: "contentChars (js ''. '') = []"
  by (simp add: contentChars_def js_def isWhiteSpace_def isTerminator_def)


lemma length_trim: "length (trim s) \<le> length s"
proof -
  have "length (trim s) \<le> length (dropWhile isWhiteSpace s)"
    unfolding trim_def using length_dropWhile_le [of isWhiteSpace "rev (dropWhile isWhiteSpace s)"]
    by simp
  also have "\<dots> \<le> length s" by (rule length_dropWhile_le)
  finally show ?thesis .
qed

lemma set_trim: "set (trim s) \<subseteq> set s"
proof -
  have "set (trim s) \<subseteq> set (dropWhile isWhiteSpace s)"
    unfolding trim_def using set_dropWhileD [of _ isWhiteSpace "rev (dropWhile isWhiteSpace s)"]
    by auto
  also have "\<dots> \<subseteq> set s" using set_dropWhileD by fastforce
  finally show ?thesis .
qed

lemma splitChar_no_sep: "w \<in> set (splitChar sep s) \<Longrightarrow> sep \<notin> set w"
proof (induction s arbitrary: w)
  case Nil
  then show ?case by simp
next
  case (Cons c cs)
  obtain v vs where s: "splitChar sep cs = v # vs"
    using splitChar_nonempty [of sep cs] by (cases "splitChar sep cs") auto
  with Cons show ?case
    by (cases "c = sep") auto
qed

lemma plain_separatorDots: "plain s \<Longrightarrow> separatorDots s"
  by (induction s) (simp_all add: plain_def isTerminator_def)

lemma plain_cleanChunk: "plain s \<Longrightarrow> cleanChunk s"
  using plain_separatorDots [of s]
  by (auto simp: cleanChunk_def plain_def isTerminator_def)

lemma separatorDots_tail: "separatorDots (c # cs) \<Longrightarrow> separatorDots cs"
  by simp

lemma separatorDots_append:
  "separatorDots a \<Longrightarrow> separatorDots b \<Longrightarrow> separatorDots (a @ b)"
proof (induction a)
  case Nil
  then show ?case by simp
next
  case (Cons c cs)
  then have t: "separatorDots (cs @ b)" by simp
  show ?case
  proof (cases "c = 46")
    case False
    with t show ?thesis by simp
  next
    case True
    with Cons.prems(1) obtain d e r where "cs = d # e # r" "d = 32" "\<not> isWhiteSpace e"
      by (cases cs; cases "tl cs") auto
    with True t show ?thesis by simp
  qed
qed

lemma separatorDots_join:
  "t \<noteq> [] \<Longrightarrow> \<not> isWhiteSpace (hd t) \<Longrightarrow> plain t \<Longrightarrow> separatorDots (js ''. '' @ t)"
  using plain_separatorDots [of t]
  by (cases t) (simp_all add: js_def)

lemma separatorDots_dropWhile: "separatorDots s \<Longrightarrow> separatorDots (dropWhile P s)"
  by (induction s) simp_all

lemma separatorDots_butlast:
  "separatorDots (s @ [w]) \<Longrightarrow> isWhiteSpace w \<Longrightarrow> separatorDots s"
proof (induction s)
  case Nil
  then show ?case by simp
next
  case (Cons c cs)
  then have t: "separatorDots cs" by simp
  show ?case
  proof (cases "c = 46")
    case False
    with t show ?thesis by simp
  next
    case True
    with Cons.prems(1) obtain d e r where c: "cs @ [w] = d # e # r" "d = 32" "\<not> isWhiteSpace e"
      by (cases "cs @ [w]"; cases "tl (cs @ [w])") auto
    with Cons.prems(2) obtain r' where "cs = d # e # r'"
      by (cases cs; cases "tl cs") auto
    with True t c show ?thesis by simp
  qed
qed

lemma dropTrailing_snoc:
  "rev (dropWhile P (rev (s @ [w]))) = (if P w then rev (dropWhile P (rev s)) else s @ [w])"
  by simp

lemma separatorDots_dropTrailing:
  "separatorDots s \<Longrightarrow> separatorDots (rev (dropWhile isWhiteSpace (rev s)))"
proof (induction s rule: rev_induct)
  case Nil
  then show ?case by simp
next
  case (snoc w s)
  show ?case
  proof (cases "isWhiteSpace w")
    case True
    with snoc.prems have "separatorDots s" by (rule separatorDots_butlast [rotated -1, rotated])
    with snoc.IH True show ?thesis by simp
  next
    case False
    with snoc.prems show ?thesis by simp
  qed
qed

lemma separatorDots_trim: "separatorDots s \<Longrightarrow> separatorDots (trim s)"
  unfolding trim_def
  by (intro separatorDots_dropTrailing separatorDots_dropWhile)

lemma cleanChunk_trim: "cleanChunk s \<Longrightarrow> cleanChunk (trim s)"
  using set_trim [of s] by (auto simp: cleanChunk_def separatorDots_trim)

lemma plain_trim: "plain s \<Longrightarrow> plain (trim s)"
  using set_trim [of s] by (auto simp: plain_def)

lemma hd_dropTrailing:
  "rev (dropWhile P (rev s)) \<noteq> [] \<Longrightarrow> hd (rev (dropWhile P (rev s))) = hd s"
proof (induction s rule: rev_induct)
  case Nil
  then show ?case by simp
next
  case (snoc w s)
  show ?case
  proof (cases "P w")
    case True
    with snoc.prems have n: "rev (dropWhile P (rev s)) \<noteq> []" by simp
    then have "s \<noteq> []" by auto
    with snoc.IH [OF n] True show ?thesis by simp
  next
    case False
    then show ?thesis by simp
  qed
qed

lemma hd_trim: "trim s \<noteq> [] \<Longrightarrow> \<not> isWhiteSpace (hd (trim s))"
proof -
  assume n: "trim s \<noteq> []"
  let ?d = "dropWhile isWhiteSpace s"
  from n have h: "hd (trim s) = hd ?d"
    unfolding trim_def by (rule hd_dropTrailing)
  have "?d \<noteq> []"
  proof
    assume e: "?d = []"
    have "trim s = []" unfolding trim_def e by simp
    with n show False by simp
  qed
  then have "\<not> isWhiteSpace (hd ?d)" by (rule hd_dropWhile)
  with h show ?thesis by simp
qed

lemma splitRuns_plain: "w \<in> set (splitRuns P s) \<Longrightarrow> \<forall>c\<in>set w. \<not> P c"
proof (induction P s arbitrary: w rule: splitRuns.induct)
  case (1 P)
  then show ?case by simp
next
  case (2 P c cs)
  show ?case
  proof (cases "P c")
    case True
    with 2 show ?thesis by auto
  next
    case False
    obtain v vs where s: "splitRuns P cs = v # vs"
      using splitRuns_nonempty [of P cs] by (cases "splitRuns P cs") auto
    from 2(2) [OF False] s have v: "\<forall>c\<in>set v. \<not> P c"
      and vs: "\<And>u. u \<in> set vs \<Longrightarrow> \<forall>c\<in>set u. \<not> P c"
      by (simp, blast)+
    from 2(3) False s consider "w = c # v" | "w \<in> set vs" by auto
    then show ?thesis
    proof cases
      case 1
      with v False show ?thesis by simp
    next
      case 2
      then show ?thesis by (rule vs)
    qed
  qed
qed

lemma splitChar_subset: "w \<in> set (splitChar sep s) \<Longrightarrow> set w \<subseteq> set s"
proof (induction s arbitrary: w)
  case Nil
  then show ?case by simp
next
  case (Cons c cs)
  obtain v vs where s: "splitChar sep cs = v # vs"
    using splitChar_nonempty [of sep cs] by (cases "splitChar sep cs") auto
  have v: "set v \<subseteq> set cs"
    using Cons.IH [of v] s by simp
  have vs: "set u \<subseteq> set cs" if "u \<in> set vs" for u
    using Cons.IH [of u] s that by simp
  from Cons.prems s consider "w = []" | "w = c # v" | "w = v" | "w \<in> set vs"
    by (cases "c = sep") auto
  then show ?case
  proof cases
    case 1
    then show ?thesis by simp
  next
    case 2
    with v show ?thesis by auto
  next
    case 3
    with v show ?thesis by auto
  next
    case 4
    with vs [OF 4] show ?thesis by auto
  qed
qed

section \<open>Properties of the chunker\<close>

text \<open>One round of each loop, by the branch it takes.\<close>

lemma wordLoop_flush:
  "length wc + length w + 1 > m \<Longrightarrow> wc \<noteq> [] \<Longrightarrow>
   wordLoop m (w # ws) (chunks, wc) = wordLoop m ws (chunks @ [trim wc], w)"
  by simp

lemma wordLoop_first:
  "wordLoop m (w # ws) (chunks, []) = wordLoop m ws (chunks, w)"
  by simp

lemma wordLoop_keep:
  "\<not> length wc + length w + 1 > m \<Longrightarrow> wc \<noteq> [] \<Longrightarrow>
   wordLoop m (w # ws) (chunks, wc) = wordLoop m ws (chunks, wc @ js '' '' @ w)"
  by simp

lemma sentenceLoop_skip:
  "trim s = [] \<Longrightarrow> sentenceLoop m (s # ss) (chunks, cur) = sentenceLoop m ss (chunks, cur)"
  by simp

lemma sentenceLoop_append:
  "trim s \<noteq> [] \<Longrightarrow> \<not> length cur + length (trim s) + 1 > m \<Longrightarrow>
   sentenceLoop m (s # ss) (chunks, cur) =
   sentenceLoop m ss (chunks, cur @ (if cur \<noteq> [] then js ''. '' else []) @ trim s)"
  by (simp add: Let_def)

lemma sentenceLoop_fresh:
  "trim s \<noteq> [] \<Longrightarrow> length cur + length (trim s) + 1 > m \<Longrightarrow> \<not> length (trim s) > m \<Longrightarrow>
   sentenceLoop m (s # ss) (chunks, cur) = sentenceLoop m ss (flushed chunks cur, trim s)"
  by (simp add: Let_def flushed_def)

lemma sentenceLoop_words:
  "trim s \<noteq> [] \<Longrightarrow> length (trim s) > m \<Longrightarrow>
   wordLoop m (splitChar 32 (trim s)) (flushed chunks cur, []) = (chunks2, wc) \<Longrightarrow>
   sentenceLoop m (s # ss) (chunks, cur) = sentenceLoop m ss (chunks2, wc)"
  by (cases "cur = []"; cases "wc = []"; simp add: Let_def flushed_def)

lemmas loop_simps = wordLoop.simps(2) sentenceLoop.simps(2)

declare loop_simps [simp del]

lemma contentChars_flushed:
  "contentChars (concat (flushed chunks cur)) = contentChars (concat chunks) @ contentChars cur"
  by (simp add: flushed_def contentChars_append contentChars_trim)

lemma contentChars_wordLoop:
  "wordLoop m ws (chunks, wc) = (chunks', wc') \<Longrightarrow>
   contentChars (concat chunks' @ wc') = contentChars (concat chunks @ wc @ concat ws)"
proof (induction ws arbitrary: chunks wc)
  case Nil
  then show ?case by simp
next
  case (Cons w ws)
  consider (first) "wc = []"
    | (flush) "wc \<noteq> []" "length wc + length w + 1 > m"
    | (keep) "wc \<noteq> []" "\<not> length wc + length w + 1 > m"
    by blast
  then show ?case
  proof cases
    case first
    with Cons.prems have "wordLoop m ws (chunks, w) = (chunks', wc')"
      by (simp add: wordLoop_first)
    from Cons.IH [OF this] first show ?thesis
      by (simp add: contentChars_append)
  next
    case flush
    with Cons.prems have "wordLoop m ws (chunks @ [trim wc], w) = (chunks', wc')"
      by (simp add: wordLoop_flush)
    from Cons.IH [OF this] show ?thesis
      by (simp add: contentChars_append contentChars_trim)
  next
    case keep
    with Cons.prems have "wordLoop m ws (chunks, wc @ js '' '' @ w) = (chunks', wc')"
      by (simp add: wordLoop_keep)
    from Cons.IH [OF this] show ?thesis
      by (simp add: contentChars_append contentChars_space)
  qed
qed

lemma contentChars_sentenceLoop:
  "sentenceLoop m ss (chunks, cur) = (chunks', cur') \<Longrightarrow>
   contentChars (concat chunks' @ cur') = contentChars (concat chunks @ cur @ concat ss)"
proof (induction ss arbitrary: chunks cur)
  case Nil
  then show ?case by simp
next
  case (Cons s ss)
  consider (skip) "trim s = []"
    | (append) "trim s \<noteq> []" "\<not> length cur + length (trim s) + 1 > m"
    | (fresh) "trim s \<noteq> []" "length cur + length (trim s) + 1 > m" "\<not> length (trim s) > m"
    | (words) "trim s \<noteq> []" "length (trim s) > m"
    by linarith
  then show ?case
  proof cases
    case skip
    with Cons.prems have "sentenceLoop m ss (chunks, cur) = (chunks', cur')"
      by (simp add: sentenceLoop_skip)
    from Cons.IH [OF this] skip show ?thesis
      by (simp add: contentChars_append contentChars_blank)
  next
    case append
    with Cons.prems have
      "sentenceLoop m ss (chunks, cur @ (if cur \<noteq> [] then js ''. '' else []) @ trim s) = (chunks', cur')"
      by (simp add: sentenceLoop_append)
    from Cons.IH [OF this] show ?thesis
      by (simp add: contentChars_append contentChars_trim contentChars_separator)
  next
    case fresh
    with Cons.prems have "sentenceLoop m ss (flushed chunks cur, trim s) = (chunks', cur')"
      by (simp add: sentenceLoop_fresh)
    from Cons.IH [OF this] show ?thesis
      by (simp add: contentChars_append contentChars_trim contentChars_flushed)
  next
    case words
    obtain chunks2 wc where
      w: "wordLoop m (splitChar 32 (trim s)) (flushed chunks cur, []) = (chunks2, wc)"
      by (cases "wordLoop m (splitChar 32 (trim s)) (flushed chunks cur, [])")
    with Cons.prems words have "sentenceLoop m ss (chunks2, wc) = (chunks', cur')"
      by (simp add: sentenceLoop_words)
    from Cons.IH [OF this] contentChars_wordLoop [OF w] show ?thesis
      by (simp add: contentChars_append contentChars_trim contentChars_flushed
                    contentChars_splitChar)
  qed
qed

lemma contentChars_createTextChunks:
  "contentChars (concat (createTextChunks text maxChunkSize)) = contentChars text"
proof -
  let ?ss = "filter (\<lambda>s. length (trim s) > 0) (splitRuns isTerminator text)"
  obtain chunks cur where l: "sentenceLoop maxChunkSize ?ss ([], []) = (chunks, cur)"
    by (cases "sentenceLoop maxChunkSize ?ss ([], [])")
  have "contentChars (concat chunks @ cur) = contentChars (concat ?ss)"
    using contentChars_sentenceLoop [OF l] by simp
  then have all: "contentChars (concat chunks @ cur) = contentChars text"
    by (simp add: contentChars_sentences contentChars_splitRuns)
  have c: "createTextChunks text maxChunkSize =
           (if trim cur \<noteq> [] then chunks @ [trim cur] else chunks)"
    using l by (simp add: createTextChunks_def)
  show ?thesis
  proof (cases "trim cur = []")
    case True
    then have "contentChars cur = []" by (rule contentChars_blank)
    with all c True show ?thesis by (simp add: contentChars_append)
  next
    case False
    with all c show ?thesis by (simp add: contentChars_append contentChars_trim)
  qed
qed

lemma plain_space_join: "plain a \<Longrightarrow> plain b \<Longrightarrow> plain (a @ js '' '' @ b)"
  by (auto simp: plain_def js_def isTerminator_def)

lemma cleanChunk_append: "cleanChunk a \<Longrightarrow> cleanChunk b \<Longrightarrow> cleanChunk (a @ b)"
  by (auto simp: cleanChunk_def separatorDots_append)

lemma cleanChunk_join:
  "t \<noteq> [] \<Longrightarrow> \<not> isWhiteSpace (hd t) \<Longrightarrow> plain t \<Longrightarrow> cleanChunk (js ''. '' @ t)"
  using separatorDots_join [of t]
  by (auto simp: cleanChunk_def plain_def isTerminator_def js_def)

lemma cleanChunk_flushed:
  "list_all cleanChunk chunks \<Longrightarrow> cleanChunk cur \<Longrightarrow> list_all cleanChunk (flushed chunks cur)"
  by (simp add: flushed_def cleanChunk_trim)

lemma wordLoop_clean:
  "wordLoop m ws (chunks, wc) = (chunks', wc') \<Longrightarrow>
   list_all plain ws \<Longrightarrow> list_all cleanChunk chunks \<Longrightarrow> plain wc \<Longrightarrow>
   list_all cleanChunk chunks' \<and> plain wc'"
proof (induction ws arbitrary: chunks wc)
  case Nil
  then show ?case by simp
next
  case (Cons w ws)
  have w: "plain w" and ws: "list_all plain ws"
    using Cons.prems(2) by simp_all
  consider (first) "wc = []"
    | (flush) "wc \<noteq> []" "length wc + length w + 1 > m"
    | (keep) "wc \<noteq> []" "\<not> length wc + length w + 1 > m"
    by blast
  then show ?case
  proof cases
    case first
    with Cons.prems have "wordLoop m ws (chunks, w) = (chunks', wc')"
      by (simp add: wordLoop_first)
    from Cons.IH [OF this ws Cons.prems(3) w] show ?thesis .
  next
    case flush
    with Cons.prems have l: "wordLoop m ws (chunks @ [trim wc], w) = (chunks', wc')"
      by (simp add: wordLoop_flush)
    have "list_all cleanChunk (chunks @ [trim wc])"
      using Cons.prems(3,4) by (simp add: plain_cleanChunk plain_trim)
    from Cons.IH [OF l ws this w] show ?thesis .
  next
    case keep
    with Cons.prems have l: "wordLoop m ws (chunks, wc @ js '' '' @ w) = (chunks', wc')"
      by (simp add: wordLoop_keep)
    from Cons.IH [OF l ws Cons.prems(3) plain_space_join [OF Cons.prems(4) w]]
    show ?thesis .
  qed
qed

lemma sentenceLoop_clean:
  "sentenceLoop m ss (chunks, cur) = (chunks', cur') \<Longrightarrow>
   list_all plain ss \<Longrightarrow> list_all cleanChunk chunks \<Longrightarrow> cleanChunk cur \<Longrightarrow>
   list_all cleanChunk chunks' \<and> cleanChunk cur'"
proof (induction ss arbitrary: chunks cur)
  case Nil
  then show ?case by simp
next
  case (Cons s ss)
  have s: "plain (trim s)" and ss: "list_all plain ss"
    using Cons.prems(2) by (simp_all add: plain_trim)
  consider (skip) "trim s = []"
    | (append) "trim s \<noteq> []" "\<not> length cur + length (trim s) + 1 > m"
    | (fresh) "trim s \<noteq> []" "length cur + length (trim s) + 1 > m" "\<not> length (trim s) > m"
    | (words) "trim s \<noteq> []" "length (trim s) > m"
    by linarith
  then show ?case
  proof cases
    case skip
    with Cons.prems have "sentenceLoop m ss (chunks, cur) = (chunks', cur')"
      by (simp add: sentenceLoop_skip)
    from Cons.IH [OF this ss Cons.prems(3,4)] show ?thesis .
  next
    case append
    with Cons.prems have l:
      "sentenceLoop m ss (chunks, cur @ (if cur \<noteq> [] then js ''. '' else []) @ trim s) = (chunks', cur')"
      by (simp add: sentenceLoop_append)
    have "cleanChunk (cur @ (if cur \<noteq> [] then js ''. '' else []) @ trim s)"
    proof (cases "cur = []")
      case True
      with s show ?thesis by (simp add: plain_cleanChunk)
    next
      case False
      have "cleanChunk (js ''. '' @ trim s)"
        using append(1) s by (intro cleanChunk_join hd_trim)
      with Cons.prems(4) False show ?thesis
        by (simp add: cleanChunk_append)
    qed
    from Cons.IH [OF l ss Cons.prems(3) this] show ?thesis .
  next
    case fresh
    with Cons.prems have l: "sentenceLoop m ss (flushed chunks cur, trim s) = (chunks', cur')"
      by (simp add: sentenceLoop_fresh)
    from Cons.IH [OF l ss cleanChunk_flushed [OF Cons.prems(3,4)] plain_cleanChunk [OF s]]
    show ?thesis .
  next
    case words
    obtain chunks2 wc where
      w: "wordLoop m (splitChar 32 (trim s)) (flushed chunks cur, []) = (chunks2, wc)"
      by (cases "wordLoop m (splitChar 32 (trim s)) (flushed chunks cur, [])")
    with Cons.prems words have l: "sentenceLoop m ss (chunks2, wc) = (chunks', cur')"
      by (simp add: sentenceLoop_words)
    have "list_all plain (splitChar 32 (trim s))"
      using s splitChar_subset [of _ 32 "trim s"]
      by (auto simp: list_all_iff plain_def)
    from wordLoop_clean [OF w this cleanChunk_flushed [OF Cons.prems(3,4)]]
    have "list_all cleanChunk chunks2" and "cleanChunk wc"
      by (simp_all add: plain_def plain_cleanChunk)
    from Cons.IH [OF l ss this] show ?thesis .
  qed
qed

lemma createTextChunks_clean: "list_all cleanChunk (createTextChunks text maxChunkSize)"
proof -
  let ?ss = "filter (\<lambda>s. length (trim s) > 0) (splitRuns isTerminator text)"
  obtain chunks cur where l: "sentenceLoop maxChunkSize ?ss ([], []) = (chunks, cur)"
    by (cases "sentenceLoop maxChunkSize ?ss ([], [])")
  have "list_all plain ?ss"
    using splitRuns_plain [of _ isTerminator "text"]
    by (auto simp: list_all_iff plain_def)
  from sentenceLoop_clean [OF l this]
  have "list_all cleanChunk chunks" and "cleanChunk cur"
    by (simp_all add: cleanChunk_def)
  then have "list_all cleanChunk (chunks @ [trim cur])"
    by (simp add: cleanChunk_trim)
  moreover have "createTextChunks text maxChunkSize =
           (if trim cur \<noteq> [] then chunks @ [trim cur] else chunks)"
    using l by (simp add: createTextChunks_def)
  ultimately show ?thesis by (simp split: if_splits)
qed

lemma chunkChars_contentChars:
  "33 \<notin> set s \<Longrightarrow> 63 \<notin> set s \<Longrightarrow> chunkChars s = contentChars s"
  unfolding chunkChars_def contentChars_def
  by (rule filter_cong) (auto simp: isTerminator_def)

text \<open>
  Claim C1, as amended. For every text and every bound that is a natural number: no
  chunk of \<open>createTextChunks\<close> holds a \<open>!\<close> or a \<open>?\<close>; every full stop in a chunk is
  followed by a space and then a character that is not white space, so it is the full
  stop of a \<open>. \<close> that the chunker puts between two sentences; and the chunks
  concatenated, with white space and those full stops left out, are exactly the
  characters of the text that are neither white space nor a sentence terminator
  (\<open>.\<close>, \<open>!\<close>, \<open>?\<close>), in the original order.
\<close>

theorem chunks_keep_content:
  "chunkChars (concat (createTextChunks text maxChunkSize)) = contentChars text
   \<and> list_all separatorDots (createTextChunks text maxChunkSize)
   \<and> 33 \<notin> set (concat (createTextChunks text maxChunkSize))
   \<and> 63 \<notin> set (concat (createTextChunks text maxChunkSize))"
proof -
  let ?chunks = "createTextChunks text maxChunkSize"
  have c: "list_all cleanChunk ?chunks" by (rule createTextChunks_clean)
  then have d: "list_all separatorDots ?chunks"
    by (simp add: list_all_iff cleanChunk_def)
  from c have n: "33 \<notin> set (concat ?chunks)" "63 \<notin> set (concat ?chunks)"
    by (auto simp: list_all_iff cleanChunk_def)
  then have "chunkChars (concat ?chunks) = contentChars (concat ?chunks)"
    by (rule chunkChars_contentChars)
  then have "chunkChars (concat ?chunks) = contentChars text"
    by (simp add: contentChars_createTextChunks)
  with d n show ?thesis by simp
qed

text \<open>
  Claim C1 as stated fails: the \<open>!\<close> of \<open>Hi! There\<close> is a character of the input that is
  not white space, and it occurs in no chunk; the only chunk is \<open>Hi. There\<close>.
\<close>

theorem terminator_lost:
  "33 \<in> set (js ''Hi! There'') \<and> \<not> isWhiteSpace 33
   \<and> createTextChunks (js ''Hi! There'') 100 = [js ''Hi. There'']
   \<and> 33 \<notin> set (concat (createTextChunks (js ''Hi! There'') 100))"
  by (simp add: createTextChunks_def js_def trim_def isWhiteSpace_def isTerminator_def loop_simps)

text \<open>
  What the two loops do keep: a chunk is at most one character longer than the bound,
  or it has no space in it, being one word of a sentence longer than the bound.
\<close>

lemma withinBound_trim: "withinBound m c \<Longrightarrow> withinBound m (trim c)"
  using length_trim [of c] set_trim [of c] by (auto simp: withinBound_def)

lemma wordBuffer_withinBound: "wordBuffer m wc \<Longrightarrow> withinBound m wc"
  by (auto simp: wordBuffer_def withinBound_def)

lemma wordLoop_bound:
  "wordLoop m ws (chunks, wc) = (chunks', wc') \<Longrightarrow>
   \<forall>w\<in>set ws. 32 \<notin> set w \<Longrightarrow> \<forall>c\<in>set chunks. withinBound m c \<Longrightarrow> wordBuffer m wc \<Longrightarrow>
   (\<forall>c\<in>set chunks'. withinBound m c) \<and> wordBuffer m wc'"
proof (induction ws arbitrary: chunks wc)
  case Nil
  then show ?case by simp
next
  case (Cons w ws)
  have w: "32 \<notin> set w" and ws: "\<forall>w\<in>set ws. 32 \<notin> set w"
    using Cons.prems(2) by auto
  have wb: "wordBuffer m w" using w by (simp add: wordBuffer_def)
  consider (first) "wc = []"
    | (flush) "wc \<noteq> []" "length wc + length w + 1 > m"
    | (keep) "wc \<noteq> []" "\<not> length wc + length w + 1 > m"
    by blast
  then show ?case
  proof cases
    case first
    with Cons.prems have "wordLoop m ws (chunks, w) = (chunks', wc')"
      by (simp add: wordLoop_first)
    from Cons.IH [OF this ws Cons.prems(3) wb] show ?thesis .
  next
    case flush
    with Cons.prems have l: "wordLoop m ws (chunks @ [trim wc], w) = (chunks', wc')"
      by (simp add: wordLoop_flush)
    have "\<forall>c\<in>set (chunks @ [trim wc]). withinBound m c"
      using Cons.prems(3,4) by (auto intro: withinBound_trim wordBuffer_withinBound)
    from Cons.IH [OF l ws this wb] show ?thesis .
  next
    case keep
    with Cons.prems have l: "wordLoop m ws (chunks, wc @ js '' '' @ w) = (chunks', wc')"
      by (simp add: wordLoop_keep)
    have "wordBuffer m (wc @ js '' '' @ w)"
      using keep by (simp add: wordBuffer_def js_def)
    from Cons.IH [OF l ws Cons.prems(3) this] show ?thesis .
  qed
qed

lemma withinBound_flushed:
  "\<forall>c\<in>set chunks. withinBound m c \<Longrightarrow> withinBound m cur \<Longrightarrow>
   \<forall>c\<in>set (flushed chunks cur). withinBound m c"
  by (auto simp: flushed_def intro: withinBound_trim)

lemma sentenceLoop_bound:
  "sentenceLoop m ss (chunks, cur) = (chunks', cur') \<Longrightarrow>
   \<forall>c\<in>set chunks. withinBound m c \<Longrightarrow> withinBound m cur \<Longrightarrow>
   (\<forall>c\<in>set chunks'. withinBound m c) \<and> withinBound m cur'"
proof (induction ss arbitrary: chunks cur)
  case Nil
  then show ?case by simp
next
  case (Cons s ss)
  consider (skip) "trim s = []"
    | (append) "trim s \<noteq> []" "\<not> length cur + length (trim s) + 1 > m"
    | (fresh) "trim s \<noteq> []" "length cur + length (trim s) + 1 > m" "\<not> length (trim s) > m"
    | (words) "trim s \<noteq> []" "length (trim s) > m"
    by linarith
  then show ?case
  proof cases
    case skip
    with Cons.prems have "sentenceLoop m ss (chunks, cur) = (chunks', cur')"
      by (simp add: sentenceLoop_skip)
    from Cons.IH [OF this Cons.prems(2,3)] show ?thesis .
  next
    case append
    with Cons.prems have l:
      "sentenceLoop m ss (chunks, cur @ (if cur \<noteq> [] then js ''. '' else []) @ trim s) = (chunks', cur')"
      by (simp add: sentenceLoop_append)
    have "withinBound m (cur @ (if cur \<noteq> [] then js ''. '' else []) @ trim s)"
      using append by (simp add: withinBound_def js_def)
    from Cons.IH [OF l Cons.prems(2) this] show ?thesis .
  next
    case fresh
    with Cons.prems have l: "sentenceLoop m ss (flushed chunks cur, trim s) = (chunks', cur')"
      by (simp add: sentenceLoop_fresh)
    have "withinBound m (trim s)" using fresh by (simp add: withinBound_def)
    from Cons.IH [OF l withinBound_flushed [OF Cons.prems(2,3)] this] show ?thesis .
  next
    case words
    obtain chunks2 wc where
      w: "wordLoop m (splitChar 32 (trim s)) (flushed chunks cur, []) = (chunks2, wc)"
      by (cases "wordLoop m (splitChar 32 (trim s)) (flushed chunks cur, [])")
    with Cons.prems words have l: "sentenceLoop m ss (chunks2, wc) = (chunks', cur')"
      by (simp add: sentenceLoop_words)
    have "(\<forall>c\<in>set chunks2. withinBound m c) \<and> wordBuffer m wc"
      using wordLoop_bound [OF w _ withinBound_flushed [OF Cons.prems(2,3)]]
      by (simp add: splitChar_no_sep wordBuffer_def)
    then have "\<forall>c\<in>set chunks2. withinBound m c" and "withinBound m wc"
      by (auto intro: wordBuffer_withinBound)
    from Cons.IH [OF l this] show ?thesis .
  qed
qed

lemma chunk_bound:
  "c \<in> set (createTextChunks text maxChunkSize) \<Longrightarrow>
   length c \<le> maxChunkSize + 1 \<or> 32 \<notin> set c"
proof -
  assume c: "c \<in> set (createTextChunks text maxChunkSize)"
  let ?ss = "filter (\<lambda>s. length (trim s) > 0) (splitRuns isTerminator text)"
  obtain chunks cur where l: "sentenceLoop maxChunkSize ?ss ([], []) = (chunks, cur)"
    by (cases "sentenceLoop maxChunkSize ?ss ([], [])")
  have "(\<forall>c\<in>set chunks. withinBound maxChunkSize c) \<and> withinBound maxChunkSize cur"
    by (rule sentenceLoop_bound [OF l]) (simp_all add: withinBound_def)
  then have "\<forall>c\<in>set (chunks @ [trim cur]). withinBound maxChunkSize c"
    by (auto intro: withinBound_trim)
  moreover have "set (createTextChunks text maxChunkSize) \<subseteq> set (chunks @ [trim cur])"
    using l by (auto simp: createTextChunks_def)
  ultimately show ?thesis using c by (auto simp: withinBound_def)
qed

lemma splitRuns_none: "\<forall>c\<in>set s. \<not> P c \<Longrightarrow> splitRuns P s = [s]"
  by (induction s) simp_all

lemma splitRuns_prefix:
  "\<forall>c\<in>set a. \<not> P c \<Longrightarrow>
   splitRuns P (a @ r) = (a @ hd (splitRuns P r)) # tl (splitRuns P r)"
proof (induction a)
  case Nil
  then show ?case using splitRuns_nonempty [of P r] by simp
next
  case (Cons c a)
  then show ?case by simp
qed

lemma trim_id:
  "s \<noteq> [] \<Longrightarrow> \<not> isWhiteSpace (hd s) \<Longrightarrow> \<not> isWhiteSpace (last s) \<Longrightarrow> trim s = s"
proof -
  assume s: "s \<noteq> []" and h: "\<not> isWhiteSpace (hd s)" and l: "\<not> isWhiteSpace (last s)"
  from s h have "dropWhile isWhiteSpace s = s"
    by (cases s) simp_all
  moreover from s l have "dropWhile isWhiteSpace (rev s) = rev s"
    by (cases "rev s") (simp_all add: last_rev [symmetric] hd_rev)
  ultimately show ?thesis by (simp add: trim_def)
qed

text \<open>
  Two sentences that together with one separator character fill the bound are joined
  into one chunk, which has one character more than the bound.
\<close>

lemma two_sentences_joined:
  assumes a: "\<forall>c\<in>set a. \<not> isTerminator c" "a \<noteq> []"
      "\<not> isWhiteSpace (hd a)" "\<not> isWhiteSpace (last a)"
    and b: "\<forall>c\<in>set b. \<not> isTerminator c" "b \<noteq> []"
      "\<not> isWhiteSpace (hd b)" "\<not> isWhiteSpace (last b)"
    and m: "length a + length b + 1 \<le> m"
  shows "createTextChunks (a @ js ''. '' @ b) m = [a @ js ''. '' @ b]"
proof -
  have sep: "js ''. '' = [46, 32]" by (simp add: js_def)
  have wb: "isWhiteSpace 32" "\<not> isTerminator 32" "isTerminator 46"
    by (simp_all add: isWhiteSpace_def isTerminator_def)
  have "splitRuns isTerminator (32 # b) = [32 # b]"
    using b(1) wb by (intro splitRuns_none) simp
  then have "splitRuns isTerminator (46 # 32 # b) = [[], 32 # b]"
    using wb by simp
  then have split: "splitRuns isTerminator (a @ js ''. '' @ b) = [a, 32 # b]"
    using splitRuns_prefix [OF a(1), of "46 # 32 # b"] by (simp add: sep)
  have ta: "trim a = a" using a by (simp add: trim_id)
  have tb: "trim b = b" using b by (simp add: trim_id)
  have tsb: "trim (32 # b) = b"
    using tb wb by (simp add: trim_def)
  have "hd (a @ js ''. '' @ b) = hd a" "last (a @ js ''. '' @ b) = last b"
    using a(2) b(2) by simp_all
  then have tj: "trim (a @ js ''. '' @ b) = a @ js ''. '' @ b"
    using a b by (simp add: trim_id)
  have one: "sentenceLoop m [a, 32 # b] ([], []) = sentenceLoop m [32 # b] ([], a)"
    using sentenceLoop_append [of a m "[]" "[32 # b]" "[]"] ta a(2) m by simp
  have two: "sentenceLoop m [32 # b] ([], a) = ([], a @ js ''. '' @ b)"
    using sentenceLoop_append [of "32 # b" m a "[]" "[]"] tsb a(2) b(2) m by simp
  show ?thesis
    using split ta tsb a(2) b(2) one two tj
    by (simp add: createTextChunks_def)
qed

lemma chunk_over_bound_1000:
  "createTextChunks (replicate 996 97 @ js ''. abc'') 1000 = [replicate 996 97 @ js ''. abc'']
   \<and> length (replicate 996 97 @ js ''. abc'') = 1001"
proof -
  have e: "js ''. abc'' = js ''. '' @ js ''abc''" by (simp add: js_def)
  have h: "hd (replicate 996 (97::nat)) = 97" "last (replicate 996 (97::nat)) = 97"
    by (simp_all add: hd_replicate last_replicate)
  have "createTextChunks (replicate 996 97 @ js ''. '' @ js ''abc'') 1000 =
        [replicate 996 97 @ js ''. '' @ js ''abc'']"
    by (rule two_sentences_joined)
       (simp_all add: h isTerminator_def isWhiteSpace_def js_def)
  then show ?thesis by (simp add: e) (simp add: js_def)
qed

text \<open>
  Claim C2 fails on the code. The sentence loop tests
  \<open>currentChunk.length + trimmedSentence.length + 1 > maxChunkSize\<close>, one character for
  the separator, and then joins with the two characters \<open>. \<close>. The text
  \<open>Hello world. abc\<close> has the two sentences \<open>Hello world\<close> and \<open>abc\<close>; with the bound 15
  the test is \<open>11 + 3 + 1 > 15\<close>, false, and the only chunk is the whole text, 16
  characters long and no single sentence or word. With the bound 1000 of the ingest
  function, a sentence of 996 letters followed by \<open>abc\<close> gives one chunk of 1001
  characters.
\<close>

theorem chunk_over_bound:
  "splitRuns isTerminator (js ''Hello world. abc'') = [js ''Hello world'', js '' abc'']
   \<and> createTextChunks (js ''Hello world. abc'') 15 = [js ''Hello world. abc'']
   \<and> length (js ''Hello world. abc'') = 16
   \<and> createTextChunks (replicate 996 97 @ js ''. abc'') 1000 = [replicate 996 97 @ js ''. abc'']
   \<and> length (replicate 996 97 @ js ''. abc'') = 1001"
proof -
  have "splitRuns isTerminator (js ''Hello world. abc'') = [js ''Hello world'', js '' abc'']
     \<and> createTextChunks (js ''Hello world. abc'') 15 = [js ''Hello world. abc'']
     \<and> length (js ''Hello world. abc'') = 16"
    by (simp add: createTextChunks_def js_def trim_def isWhiteSpace_def isTerminator_def
          loop_simps)
  with chunk_over_bound_1000 show ?thesis by blast
qed

section \<open>Properties of the ingest function\<close>

lemma processDownloaded_Inr:
  "processDownloaded db req env fileData = Inr (db', resp) \<Longrightarrow>
   \<exists>extractedText.
      extractText req fileData = Inr extractedText \<and> update_error env = None \<and>
      documents db' =
        map (\<lambda>d. if doc_id d = documentId req
                  then processedValues extractedText (now env) d else d) (documents db) \<and>
      document_chunks db' = document_chunks db @
        (if chunks_error env = None
         then chunksData (documentId req) (createTextChunks extractedText 1000) else []) \<and>
      messages db' = messages db \<and>
      resp = \<lparr>status = 200,
              body = Processed (documentId req) (length extractedText)
                       (length (createTextChunks extractedText 1000))\<rparr>"
  by (auto simp: processDownloaded_def updateDocuments_def chunksData_def Let_def
           split: sum.splits option.splits if_splits)

text \<open>
  The three effects an invocation can have on the store: none; the update of the
  success path, followed by the insert of the chunks; the update of the soft-failure
  path.
\<close>

lemma serve_effect:
  assumes "serve db req env = (db', resp)"
  shows "(db' = db \<and> \<not> isProcessed (body resp)
          \<and> (isExtractionFailed (body resp) \<and> mark_error env = None) = False)
       \<or> (\<exists>extractedText.
             isProcessed (body resp) \<and>
             documents db' =
               map (\<lambda>d. if doc_id d = documentId req
                         then processedValues extractedText (now env) d else d) (documents db) \<and>
             document_chunks db' = document_chunks db @
               (if chunks_error env = None
                then chunksData (documentId req) (createTextChunks extractedText 1000) else []) \<and>
             messages db' = messages db)
       \<or> (\<exists>message.
             isExtractionFailed (body resp) \<and> mark_error env = None \<and>
             documents db' =
               map (\<lambda>d. if doc_id d = documentId req
                         then failedValues message (now env) d else d) (documents db) \<and>
             document_chunks db' = document_chunks db \<and>
             messages db' = messages db)"
proof (cases "http_method req = ''OPTIONS''")
  case True
  with assms show ?thesis
    by (auto simp: serve_def isProcessed_def isExtractionFailed_def)
next
  case False
  note post = False
  show ?thesis
  proof (cases "download env")
    case (Inl downloadError)
    with assms post show ?thesis
      by (auto simp: serve_def isProcessed_def isExtractionFailed_def Let_def)
  next
    case (Inr fileData)
    show ?thesis
    proof (cases "processDownloaded db req env fileData")
      case (Inl message)
      with assms post Inr show ?thesis
        by (cases "mark_error env")
           (auto simp: serve_def updateDocuments_def isProcessed_def isExtractionFailed_def)
    next
      case (Inr result)
      with assms post \<open>download env = Inr fileData\<close> have r: "result = (db', resp)"
        by (simp add: serve_def)
      from processDownloaded_Inr [OF Inr [unfolded r]] show ?thesis
        by (auto simp: isProcessed_def)
    qed
  qed
qed

lemma not_both: "isProcessed b \<Longrightarrow> isExtractionFailed b \<Longrightarrow> False"
  by (cases b) (simp_all add: isProcessed_def isExtractionFailed_def)

text \<open>
  The sample invocations, evaluated: the success path, the soft-failure path after a
  rejected update, and the soft-failure path of a second invocation without a type.
\<close>

lemma sample_processed:
  "serve sampleDb sampleRequest sampleEnv =
     (\<lparr>documents =
         [\<lparr>doc_id = 0, user_id = 7, title = js ''notes.txt'', file_name = js ''1-abc.txt'',
           file_type = js ''text/plain'', file_size = 28,
           content = Some (js ''Hello world. This is a test.''),
           metadata = [(''processed'', JBool True),
                       (''processed_at'', JStr (js ''2025-01-01T00:00:00.000Z'')),
                       (''word_count'', JNum 6)]\<rparr>],
       document_chunks =
         [\<lparr>chunk_document_id = 0, chunk_content = js ''Hello world. This is a test'',
           chunk_index = 0, chunk_size = 27\<rparr>],
       messages = []\<rparr>,
      \<lparr>status = 200, body = Processed 0 28 1\<rparr>)"
  by (simp add: serve_def processDownloaded_def extractText_def sampleDb_def sampleRequest_def
        sampleEnv_def sampleBlob_def insertDocument_def emptyDb_def updateDocuments_def
        processedValues_def chunksData_def createTextChunks_def js_def trim_def
        isWhiteSpace_def isTerminator_def loop_simps)

lemma sample_thrown:
  "processDownloaded sampleDb sampleRequest (sampleEnv\<lparr>update_error := Some (js ''timeout'')\<rparr>)
     sampleBlob = Inl (js ''Failed to update document: timeout'')"
  by (simp add: processDownloaded_def extractText_def sampleRequest_def sampleEnv_def js_def)

lemma sample_failed:
  "serve sampleDb sampleRequest (sampleEnv\<lparr>update_error := Some (js ''timeout'')\<rparr>) =
     (updateDocuments sampleDb 0
        (failedValues (js ''Failed to update document: timeout'') (js ''2025-01-01T00:00:00.000Z'')),
      \<lparr>status = 200,
       body = ExtractionFailed (js ''Text extraction failed'')
                (js ''Failed to update document: timeout'')\<rparr>)"
proof -
  let ?env = "sampleEnv\<lparr>update_error := Some (js ''timeout'')\<rparr>"
  have "http_method sampleRequest \<noteq> ''OPTIONS''" "documentId sampleRequest = 0"
    by (simp_all add: sampleRequest_def)
  moreover have "download ?env = Inr sampleBlob" "mark_error ?env = None"
    "now ?env = js ''2025-01-01T00:00:00.000Z''"
    by (simp_all add: sampleEnv_def)
  ultimately show ?thesis
    by (simp add: serve_def sample_thrown)
qed

lemma sample_rejected_thrown:
  "processDownloaded sampleDb sampleRequest rejectingEnv sampleBlob =
     Inl (js ''Failed to update document: timeout'')"
  by (simp add: processDownloaded_def extractText_def sampleRequest_def sampleEnv_def
        rejectingEnv_def js_def)

lemma sample_rejected:
  "serve sampleDb sampleRequest rejectingEnv =
     (sampleDb,
      \<lparr>status = 200,
       body = ExtractionFailed (js ''Text extraction failed'')
                (js ''Failed to update document: timeout'')\<rparr>)"
proof -
  have "http_method sampleRequest \<noteq> ''OPTIONS''"
    by (simp add: sampleRequest_def)
  moreover have "download rejectingEnv = Inr sampleBlob"
    "mark_error rejectingEnv = Some (js ''timeout'')"
    by (simp_all add: rejectingEnv_def sampleEnv_def)
  ultimately show ?thesis
    by (simp add: serve_def sample_rejected_thrown)
qed

lemma sample_reingest_failed:
  "serve (fst (serve sampleDb sampleRequest sampleEnv)) (sampleRequest\<lparr>fileType := None\<rparr>) sampleEnv =
     (\<lparr>documents =
         [\<lparr>doc_id = 0, user_id = 7, title = js ''notes.txt'', file_name = js ''1-abc.txt'',
           file_type = js ''text/plain'', file_size = 28,
           content = Some (js ''Hello world. This is a test.''),
           metadata = [(''processed'', JBool False),
                       (''processing_error'', JStr startsWithOfUndefined),
                       (''processed_at'', JStr (js ''2025-01-01T00:00:00.000Z''))]\<rparr>],
       document_chunks =
         [\<lparr>chunk_document_id = 0, chunk_content = js ''Hello world. This is a test'',
           chunk_index = 0, chunk_size = 27\<rparr>],
       messages = []\<rparr>,
      \<lparr>status = 200,
       body = ExtractionFailed (js ''Text extraction failed'') startsWithOfUndefined\<rparr>)"
  by (simp add: sample_processed)
     (simp add: serve_def processDownloaded_def extractText_def sampleRequest_def sampleEnv_def
        updateDocuments_def failedValues_def)

text \<open>
  Claim C7. When the download fails, the invocation leaves the whole store as it was,
  so the document keeps its content and its metadata, and the response has status 500
  with the body \<open>{error}\<close>, the error being \<open>Failed to download file: \<close> followed by
  the message of the download error. (An \<open>OPTIONS\<close> request downloads nothing.)
\<close>

theorem download_failure:
  "http_method req \<noteq> ''OPTIONS'' \<Longrightarrow> download env = Inl downloadError \<Longrightarrow>
   serve db req env =
     (db, \<lparr>status = 500, body = Failed (js ''Failed to download file: '' @ downloadError)\<rparr>)"
  by (simp add: serve_def js_def)

text \<open>
  Claim C7 at the sample request, with the download answering \<open>Object not found\<close>.
\<close>

theorem download_failure_witness:
  "serve sampleDb sampleRequest (sampleEnv\<lparr>download := Inl (js ''Object not found'')\<rparr>) =
     (sampleDb,
      \<lparr>status = 500, body = Failed (js ''Failed to download file: Object not found'')\<rparr>)"
  using download_failure [of sampleRequest "sampleEnv\<lparr>download := Inl (js ''Object not found'')\<rparr>"
      "js ''Object not found''" sampleDb]
  by (simp add: sampleRequest_def sampleEnv_def js_def)

text \<open>
  Claim C8, as amended. When an exception with message \<open>message\<close> leaves the extract and
  update step after a successful download, the invocation issues the update that sets
  the metadata of the document to \<open>processed: false\<close>, \<open>processing_error: message\<close> and
  the timestamp, and does not read its result: when the store applies that update the
  metadata of the document is exactly that, when the store rejects it the store is as
  it was; in both cases the response has status 200 and the body
  \<open>{success: false, error, details}\<close>, the details being the message.
\<close>

theorem soft_failure:
  "http_method req \<noteq> ''OPTIONS'' \<Longrightarrow> download env = Inr fileData \<Longrightarrow>
   processDownloaded db req env fileData = Inl message \<Longrightarrow>
   serve db req env =
     ((if mark_error env = None
       then db\<lparr>documents :=
              map (\<lambda>d. if doc_id d = documentId req
                        then d\<lparr>metadata := [(''processed'', JBool False),
                                            (''processing_error'', JStr message),
                                            (''processed_at'', JStr (now env))]\<rparr>
                        else d)
                  (documents db)\<rparr>
       else db),
      \<lparr>status = 200, body = ExtractionFailed (js ''Text extraction failed'') message\<rparr>)"
  by (simp add: serve_def updateDocuments_def failedValues_def)

text \<open>
  Claim C8 as amended, at the sample request, when the store rejects the first update
  with \<open>timeout\<close> and applies the marking update: the exception is
  \<open>Failed to update document: timeout\<close>.
\<close>

theorem soft_failure_witness:
  "serve sampleDb sampleRequest (sampleEnv\<lparr>update_error := Some (js ''timeout'')\<rparr>) =
     (sampleDb\<lparr>documents :=
        [\<lparr>doc_id = 0, user_id = 7, title = js ''notes.txt'', file_name = js ''1-abc.txt'',
          file_type = js ''text/plain'', file_size = 28, content = None,
          metadata = [(''processed'', JBool False),
                      (''processing_error'', JStr (js ''Failed to update document: timeout'')),
                      (''processed_at'', JStr (js ''2025-01-01T00:00:00.000Z''))]\<rparr>]\<rparr>,
      \<lparr>status = 200,
       body = ExtractionFailed (js ''Text extraction failed'')
                (js ''Failed to update document: timeout'')\<rparr>)"
  using soft_failure [of sampleRequest "sampleEnv\<lparr>update_error := Some (js ''timeout'')\<rparr>"
      sampleBlob sampleDb "js ''Failed to update document: timeout''", OF _ _ sample_thrown]
  by (simp add: sampleRequest_def sampleEnv_def sampleDb_def insertDocument_def emptyDb_def)

text \<open>
  Claim C8 as stated fails. When the store rejects the first update and the marking
  update as well, the exception \<open>Failed to update document: timeout\<close> leaves the step,
  the response is the 200 of the soft failure, and the document is as the upload made
  it: its metadata has no \<open>processed\<close> key and no \<open>processing_error\<close>.
\<close>

theorem marking_update_rejected:
  "processDownloaded sampleDb sampleRequest rejectingEnv sampleBlob =
     Inl (js ''Failed to update document: timeout'')
   \<and> serve sampleDb sampleRequest rejectingEnv =
       (sampleDb,
        \<lparr>status = 200,
         body = ExtractionFailed (js ''Text extraction failed'')
                  (js ''Failed to update document: timeout'')\<rparr>)
   \<and> map metadata (documents sampleDb) =
       [[(''original_name'', JStr (js ''notes.txt'')),
         (''storage_path'', JStr (js ''7/1-abc.txt''))]]
   \<and> map_of (metadata (hd (documents sampleDb))) ''processed'' = None
   \<and> map_of (metadata (hd (documents sampleDb))) ''processing_error'' = None"
  using sample_rejected sample_rejected_thrown
  by (simp add: sampleDb_def insertDocument_def emptyDb_def)

text \<open>
  Claim C9. For a declared type that is none of \<open>text/plain\<close>, \<open>application/pdf\<close>, the
  DOCX type and the PPTX type and does not start with \<open>image/\<close>, the dispatch returns
  \<open>Unsupported file type: \<close> followed by the type, and throws nothing.
\<close>

theorem unsupported_type:
  "fileType req = Some t \<Longrightarrow>
   t \<noteq> js ''text/plain'' \<Longrightarrow>
   t \<noteq> js ''application/pdf'' \<Longrightarrow>
   t \<noteq> js ''application/vnd.openxmlformats-officedocument.wordprocessingml.document'' \<Longrightarrow>
   t \<noteq> js ''application/vnd.openxmlformats-officedocument.presentationml.presentation'' \<Longrightarrow>
   \<not> startsWith t (js ''image/'') \<Longrightarrow>
   extractText req fileData = Inr (js ''Unsupported file type: '' @ t)"
  by (simp add: extractText_def)

text \<open>
  Claim C9 at the type \<open>video/mp4\<close>.
\<close>

theorem unsupported_type_witness:
  "extractText (sampleRequest\<lparr>fileType := Some (js ''video/mp4'')\<rparr>) sampleBlob =
     Inr (js ''Unsupported file type: video/mp4'')"
  using unsupported_type [of "sampleRequest\<lparr>fileType := Some (js ''video/mp4'')\<rparr>"
      "js ''video/mp4''" sampleBlob]
  by (simp add: js_def)

lemma metadataReplaced_processed:
  "metadataReplaced [''processed'', ''processed_at'', ''word_count''] d
     (processedValues extractedText timestamp d)"
  by (simp add: metadataReplaced_def processedValues_def uploadKeysGone_def otherFieldsKept_def)

lemma metadataReplaced_failed:
  "metadataReplaced [''processed'', ''processing_error'', ''processed_at''] d
     (failedValues message timestamp d)"
  by (simp add: metadataReplaced_def failedValues_def uploadKeysGone_def otherFieldsKept_def)

text \<open>
  Claim C10, as amended. When the invocation writes the document, on the success path
  and on the soft-failure path when the store applies the marking update, every
  document with the id of the request has afterwards a metadata object with the
  processing keys only (\<open>processed\<close>, \<open>processed_at\<close>, \<open>word_count\<close> on success;
  \<open>processed\<close>, \<open>processing_error\<close>, \<open>processed_at\<close> on failure), so the keys
  \<open>original_name\<close> and \<open>storage_path\<close> of the upload are gone, while its title, file
  name, file type and file size are as before. Every other document, and every
  document when the invocation writes nothing, as on the soft-failure path when the
  store rejects the marking update, is as it was, with the metadata of the upload.
\<close>

theorem metadata_replaced:
  assumes "serve db req env = (db', resp)"
  shows "list_all2
           (\<lambda>d d'. if doc_id d = documentId req \<and> writesDocument env (body resp)
                    then metadataReplaced (processingKeys (body resp)) d d'
                    else d' = d)
           (documents db) (documents db')"
proof -
  from serve_effect [OF assms]
  consider (none) "db' = db" "\<not> writesDocument env (body resp)"
    | (success) extractedText where "isProcessed (body resp)"
      "documents db' =
         map (\<lambda>d. if doc_id d = documentId req
                   then processedValues extractedText (now env) d else d) (documents db)"
    | (failure) message where "isExtractionFailed (body resp)" "mark_error env = None"
      "documents db' =
         map (\<lambda>d. if doc_id d = documentId req
                   then failedValues message (now env) d else d) (documents db)"
    unfolding writesDocument_def by blast
  then show ?thesis
  proof cases
    case none
    then show ?thesis
      by (simp add: list_all2_same)
  next
    case success
    then show ?thesis
      by (simp add: list_all2_map2 list_all2_same processingKeys_def writesDocument_def
            metadataReplaced_processed)
  next
    case failure
    then have "\<not> isProcessed (body resp)" using not_both by blast
    with failure show ?thesis
      by (simp add: list_all2_map2 list_all2_same processingKeys_def writesDocument_def
            metadataReplaced_failed)
  qed
qed

text \<open>
  Claim C10 as amended, at the sample request: on the success path, on the
  soft-failure path with the marking update applied, and with it rejected.
\<close>

theorem metadata_replaced_witness:
  "list_all2
     (\<lambda>d d'. if doc_id d = documentId sampleRequest
              then metadataReplaced [''processed'', ''processed_at'', ''word_count''] d d'
              else d' = d)
     (documents sampleDb) (documents (fst (serve sampleDb sampleRequest sampleEnv)))
   \<and> list_all2
         (\<lambda>d d'. if doc_id d = documentId sampleRequest
                  then metadataReplaced [''processed'', ''processing_error'', ''processed_at''] d d'
                  else d' = d)
         (documents sampleDb)
         (documents (fst (serve sampleDb sampleRequest
                            (sampleEnv\<lparr>update_error := Some (js ''timeout'')\<rparr>))))
   \<and> list_all2 (\<lambda>d d'. d' = d)
         (documents sampleDb) (documents (fst (serve sampleDb sampleRequest rejectingEnv)))"
proof -
  let ?ok = "serve sampleDb sampleRequest sampleEnv"
  let ?env = "sampleEnv\<lparr>update_error := Some (js ''timeout'')\<rparr>"
  let ?ko = "serve sampleDb sampleRequest ?env"
  let ?no = "serve sampleDb sampleRequest rejectingEnv"
  have ok: "isProcessed (body (snd ?ok))"
    by (simp add: sample_processed isProcessed_def)
  have ko: "isExtractionFailed (body (snd ?ko))"
    by (simp add: sample_failed isExtractionFailed_def)
  have no: "isExtractionFailed (body (snd ?no))"
    by (simp add: sample_rejected isExtractionFailed_def)
  have m: "mark_error ?env = None" "mark_error rejectingEnv \<noteq> None"
    by (simp_all add: sampleEnv_def rejectingEnv_def)
  have w1: "writesDocument sampleEnv (body (snd ?ok)) = True"
    using ok by (simp add: writesDocument_def)
  have w2: "writesDocument ?env (body (snd ?ko)) = True"
    using ko m by (simp add: writesDocument_def)
  have w3: "writesDocument rejectingEnv (body (snd ?no)) = False"
    using no m not_both by (auto simp: writesDocument_def)
  have k1: "processingKeys (body (snd ?ok)) = [''processed'', ''processed_at'', ''word_count'']"
    using ok by (simp add: processingKeys_def)
  have "\<not> isProcessed (body (snd ?ko))"
    using ko not_both by blast
  then have k2:
    "processingKeys (body (snd ?ko)) = [''processed'', ''processing_error'', ''processed_at'']"
    by (simp add: processingKeys_def)
  note a = metadata_replaced [of sampleDb sampleRequest sampleEnv "fst ?ok" "snd ?ok",
      OF prod.collapse [symmetric], unfolded w1 k1]
  note b = metadata_replaced [of sampleDb sampleRequest ?env "fst ?ko" "snd ?ko",
      OF prod.collapse [symmetric], unfolded w2 k2]
  note c = metadata_replaced [of sampleDb sampleRequest rejectingEnv "fst ?no" "snd ?no",
      OF prod.collapse [symmetric], unfolded w3]
  from a b c show ?thesis by simp
qed

text \<open>
  Claim C10 as stated fails. On the soft-failure path with the marking update rejected
  by the store, the metadata of the document is still the one of the upload, with the
  keys \<open>original_name\<close> and \<open>storage_path\<close>.
\<close>

theorem upload_keys_remain:
  "isExtractionFailed (body (snd (serve sampleDb sampleRequest rejectingEnv)))
   \<and> map (\<lambda>d. map fst (metadata d)) (documents (fst (serve sampleDb sampleRequest rejectingEnv)))
       = [[''original_name'', ''storage_path'']]
   \<and> map_of (metadata (hd (documents (fst (serve sampleDb sampleRequest rejectingEnv)))))
         ''original_name'' = Some (JStr (js ''notes.txt''))"
  by (simp add: sample_rejected isExtractionFailed_def)
     (simp add: sampleDb_def insertDocument_def emptyDb_def)

section \<open>Properties of runs\<close>

lemma run_Nil: "run db [] = db"
  by (simp add: run_def)

lemma run_Cons: "run db (ev # evs) = run (step db ev) evs"
  by (simp add: run_def)

lemma run_upload: "run emptyDb [sampleUpload] = sampleDb"
  by (simp add: run_def sampleUpload_def sampleDb_def)

lemma sample_run:
  "run emptyDb [sampleUpload, Ingest sampleRequest sampleEnv] = fst (serve sampleDb sampleRequest sampleEnv)"
  using run_upload by (simp add: run_def)

lemma update_keeps:
  "\<forall>d\<in>set ds. Q d \<Longrightarrow> (\<And>d. d \<in> set ds \<Longrightarrow> doc_id d = i \<Longrightarrow> Q (f d)) \<Longrightarrow>
   \<forall>d\<in>set (map (\<lambda>d. if doc_id d = i then f d else d) ds). Q d"
  by auto

lemma processedOk_processed [simp]: "processedOk (processedValues t ts d)"
  by (simp add: processedOk_def processedValues_def)

lemma content_processed [simp]: "content (processedValues t ts d) = Some t"
  by (simp add: processedValues_def)

lemma processedOk_failed [simp]: "\<not> processedOk (failedValues m ts d)"
  by (simp add: processedOk_def failedValues_def)

lemma content_failed [simp]: "content (failedValues m ts d) = content d"
  by (simp add: failedValues_def)

lemma step_okImpliesContent: "okImpliesContent db \<Longrightarrow> okImpliesContent (step db ev)"
proof (cases ev)
  case (Upload user f storedName path)
  assume "okImpliesContent db"
  with Upload show ?thesis
    by (simp add: okImpliesContent_def insertDocument_def processedOk_def)
next
  case (Ingest req env)
  assume a: "okImpliesContent db"
  obtain db' resp where s: "serve db req env = (db', resp)"
    by (cases "serve db req env")
  from serve_effect [OF s]
  consider "db' = db"
    | t where "documents db' =
        map (\<lambda>d. if doc_id d = documentId req then processedValues t (now env) d else d)
          (documents db)"
    | m where "documents db' =
        map (\<lambda>d. if doc_id d = documentId req then failedValues m (now env) d else d)
          (documents db)"
    by blast
  then have "okImpliesContent db'"
  proof cases
    case 1
    with a show ?thesis by simp
  next
    case 2
    show ?thesis
      unfolding okImpliesContent_def 2
      by (rule update_keeps) (use a in \<open>simp_all add: okImpliesContent_def\<close>)
  next
    case 3
    show ?thesis
      unfolding okImpliesContent_def 3
      by (rule update_keeps) (use a in \<open>simp_all add: okImpliesContent_def\<close>)
  qed
  with Ingest s show ?thesis by simp
qed

lemma step_contentImpliesOk:
  "contentImpliesOk db \<Longrightarrow> \<not> failsOnContent db ev \<Longrightarrow> contentImpliesOk (step db ev)"
proof (cases ev)
  case (Upload user f storedName path)
  assume "contentImpliesOk db"
  with Upload show ?thesis
    by (simp add: contentImpliesOk_def insertDocument_def)
next
  case (Ingest req env)
  assume a: "contentImpliesOk db" and g: "\<not> failsOnContent db ev"
  obtain db' resp where s: "serve db req env = (db', resp)"
    by (cases "serve db req env")
  from serve_effect [OF s]
  consider "db' = db"
    | t where "documents db' =
        map (\<lambda>d. if doc_id d = documentId req then processedValues t (now env) d else d)
          (documents db)"
    | m where "isExtractionFailed (body resp)" "documents db' =
        map (\<lambda>d. if doc_id d = documentId req then failedValues m (now env) d else d)
          (documents db)"
    by blast
  then have "contentImpliesOk db'"
  proof cases
    case 1
    with a show ?thesis by simp
  next
    case 2
    show ?thesis
      unfolding contentImpliesOk_def 2
      by (rule update_keeps) (use a in \<open>simp_all add: contentImpliesOk_def\<close>)
  next
    case 3
    with g Ingest s have n: "\<And>d. d \<in> set (documents db) \<Longrightarrow> doc_id d = documentId req \<Longrightarrow>
        content d = None"
      by (auto simp: failsOnContent_def hasContent_def list_ex_iff)
    show ?thesis
      unfolding contentImpliesOk_def 3(2)
      by (rule update_keeps) (use a n in \<open>simp_all add: contentImpliesOk_def\<close>)
  qed
  with Ingest s show ?thesis by simp
qed

lemma run_okImpliesContent: "okImpliesContent db \<Longrightarrow> okImpliesContent (run db evs)"
  unfolding run_def
  by (induction evs arbitrary: db) (simp_all add: step_okImpliesContent)

lemma run_contentImpliesOk:
  "contentImpliesOk db \<Longrightarrow> neverFailsOnContent db evs \<Longrightarrow> contentImpliesOk (run db evs)"
  unfolding run_def
  by (induction evs arbitrary: db) (simp_all add: step_contentImpliesOk)

text \<open>
  Claim C4, as amended. In every state reached by a run of uploads and ingest
  invocations from the empty store, a document whose metadata marks \<open>processed: true\<close>
  with no \<open>processing_error\<close> has content; and when no ingest of the run takes the
  soft-failure path for a document that already has content, a document has content
  if and only if its metadata marks \<open>processed: true\<close> with no \<open>processing_error\<close>.
\<close>

theorem content_and_processed:
  "(\<forall>d\<in>set (documents (run emptyDb evs)). processedOk d \<longrightarrow> content d \<noteq> None)
   \<and> (neverFailsOnContent emptyDb evs \<longrightarrow>
        (\<forall>d\<in>set (documents (run emptyDb evs)). content d \<noteq> None \<longleftrightarrow> processedOk d))"
proof -
  have "okImpliesContent emptyDb" "contentImpliesOk emptyDb"
    by (simp_all add: okImpliesContent_def contentImpliesOk_def emptyDb_def)
  then have "okImpliesContent (run emptyDb evs)"
    and "neverFailsOnContent emptyDb evs \<Longrightarrow> contentImpliesOk (run emptyDb evs)"
    by (simp_all add: run_okImpliesContent run_contentImpliesOk)
  then show ?thesis
    unfolding okImpliesContent_def contentImpliesOk_def by blast
qed

text \<open>
  Claim C4 as amended, at the upload and the ingestion of the sample file.
\<close>

theorem content_and_processed_witness:
  "neverFailsOnContent emptyDb [sampleUpload, Ingest sampleRequest sampleEnv]
   \<and> length (documents (run emptyDb [sampleUpload, Ingest sampleRequest sampleEnv])) = 1
   \<and> processedOk (hd (documents (run emptyDb [sampleUpload, Ingest sampleRequest sampleEnv])))
   \<and> content (hd (documents (run emptyDb [sampleUpload, Ingest sampleRequest sampleEnv]))) \<noteq> None"
proof -
  let ?evs = "[sampleUpload, Ingest sampleRequest sampleEnv]"
  have s: "step emptyDb sampleUpload = sampleDb"
    by (simp add: sampleUpload_def sampleDb_def)
  have g: "neverFailsOnContent emptyDb ?evs"
    by (simp add: s failsOnContent_def sample_processed isExtractionFailed_def)
       (simp add: sampleUpload_def)
  have l: "length (documents (run emptyDb ?evs)) = 1"
    by (simp add: sample_run sample_processed)
  have p: "processedOk (hd (documents (run emptyDb ?evs)))"
    by (simp add: sample_run sample_processed processedOk_def)
  from l have "hd (documents (run emptyDb ?evs)) \<in> set (documents (run emptyDb ?evs))"
    by (cases "documents (run emptyDb ?evs)") simp_all
  with content_and_processed [of ?evs] g p
  have "content (hd (documents (run emptyDb ?evs))) \<noteq> None"
    by blast
  with g l p show ?thesis by simp
qed

text \<open>
  Claim C4 as stated fails. The sample file is uploaded and ingested, and ingest is
  invoked again for the same document with a request that has no \<open>fileType\<close>: the
  dispatch throws, the soft-failure update sets \<open>processed: false\<close> and leaves the
  content of the first ingestion.
\<close>

theorem content_without_processed:
  "content (hd (documents (run emptyDb reingestEvents))) = Some (js ''Hello world. This is a test.'')
   \<and> map_of (metadata (hd (documents (run emptyDb reingestEvents)))) ''processed'' = Some (JBool False)
   \<and> \<not> processedOk (hd (documents (run emptyDb reingestEvents)))"
proof -
  have "run emptyDb reingestEvents =
        fst (serve (fst (serve sampleDb sampleRequest sampleEnv))
               (sampleRequest\<lparr>fileType := None\<rparr>) sampleEnv)"
    using run_upload by (simp add: run_def reingestEvents_def)
  then show ?thesis
    by (simp add: sample_reingest_failed processedOk_def)
qed

lemma chunksData_indices: "map chunk_index (chunksData docId chunks) = [0..<length chunks]"
proof -
  have "map chunk_index (chunksData docId chunks) = map fst (enumerate 0 chunks)"
    by (simp add: chunksData_def case_prod_unfold comp_def)
  then show ?thesis by (simp add: map_fst_enumerate)
qed

lemma chunksData_document:
  "filter (\<lambda>c. chunk_document_id c = d) (chunksData docId chunks) =
     (if d = docId then chunksData docId chunks else [])"
  by (auto simp: chunksData_def filter_empty_conv case_prod_unfold filter_id_conv)

text \<open>
  Each invocation appends, for its document, one run of ordinals from 0.
\<close>

lemma serve_chunkIndices:
  "\<exists>n. \<forall>d. chunkIndices d (fst (serve db req env)) =
           chunkIndices d db @ (if d = documentId req then [0..<n] else [])"
proof -
  obtain db' resp where s: "serve db req env = (db', resp)"
    by (cases "serve db req env")
  from serve_effect [OF s]
  consider "document_chunks db' = document_chunks db"
    | t where "document_chunks db' =
        document_chunks db @ chunksData (documentId req) (createTextChunks t 1000)"
    by (auto split: if_splits)
  then show ?thesis
  proof cases
    case 1
    then have "\<forall>d. chunkIndices d db' =
               chunkIndices d db @ (if d = documentId req then [0..<0] else [])"
      by (simp add: chunkIndices_def)
    with s show ?thesis by (metis fst_conv)
  next
    case 2
    then have "\<forall>d. chunkIndices d db' =
               chunkIndices d db @
               (if d = documentId req then [0..<length (createTextChunks t 1000)] else [])"
      by (simp add: chunkIndices_def chunksData_document chunksData_indices)
    with s show ?thesis by (metis fst_conv)
  qed
qed

lemma step_contiguous:
  assumes "\<forall>d. contiguous (chunkIndices d db)" and "\<not> reinserts db ev"
  shows "\<forall>d. contiguous (chunkIndices d (step db ev))"
proof (cases ev)
  case (Upload user f storedName path)
  with assms(1) show ?thesis
    by (simp add: chunkIndices_def insertDocument_def)
next
  case (Ingest req env)
  with assms(2) have e: "chunkIndices (documentId req) db = []"
    by (simp add: reinserts_def)
  from serve_chunkIndices [of db req env] obtain n where
    n: "\<And>d. chunkIndices d (fst (serve db req env)) =
           chunkIndices d db @ (if d = documentId req then [0..<n] else [])"
    by blast
  show ?thesis
  proof
    fix d
    show "contiguous (chunkIndices d (step db ev))"
    proof (cases "d = documentId req")
      case True
      with n [of d] e Ingest show ?thesis by (simp add: contiguous_def)
    next
      case False
      with n [of d] assms(1) Ingest show ?thesis by simp
    qed
  qed
qed

lemma run_contiguous:
  "\<forall>d. contiguous (chunkIndices d db) \<Longrightarrow> neverReinserts db evs \<Longrightarrow>
   \<forall>d. contiguous (chunkIndices d (run db evs))"
proof (induction evs arbitrary: db)
  case Nil
  then show ?case by (simp add: run_Nil)
next
  case (Cons ev evs)
  from Cons.prems have "\<forall>d. contiguous (chunkIndices d (step db ev))"
    by (simp add: step_contiguous)
  with Cons show ?case by (simp add: run_Cons)
qed

text \<open>
  Claim C5, as amended. After a run from the empty store in which no ingest is invoked
  for a document that already has stored chunks, the ordinals of the stored chunks of
  every document are \<open>0, 1, ..., n - 1\<close> in the store's order: contiguous from 0 and
  strictly increasing.
\<close>

theorem ordinals_contiguous:
  "neverReinserts emptyDb evs \<Longrightarrow>
   chunkIndices docId (run emptyDb evs) = [0..<length (chunkIndices docId (run emptyDb evs))]"
proof -
  assume g: "neverReinserts emptyDb evs"
  have "\<forall>d. contiguous (chunkIndices d emptyDb)"
    by (simp add: contiguous_def chunkIndices_def emptyDb_def)
  from run_contiguous [OF this g] show ?thesis
    by (simp add: contiguous_def)
qed

text \<open>
  Claim C5 as amended, at the upload and the ingestion of the sample file.
\<close>

theorem ordinals_contiguous_witness:
  "neverReinserts emptyDb [sampleUpload, Ingest sampleRequest sampleEnv]
   \<and> chunkIndices 0 (run emptyDb [sampleUpload, Ingest sampleRequest sampleEnv]) = [0]"
proof -
  let ?evs = "[sampleUpload, Ingest sampleRequest sampleEnv]"
  have s: "step emptyDb sampleUpload = sampleDb"
    by (simp add: sampleUpload_def sampleDb_def)
  have "chunkIndices 0 sampleDb = []"
    by (simp add: chunkIndices_def sampleDb_def insertDocument_def emptyDb_def)
  then have g: "neverReinserts emptyDb ?evs"
    by (simp add: s reinserts_def)
       (simp add: sampleUpload_def sampleRequest_def)
  have l: "length (chunkIndices 0 (run emptyDb ?evs)) = 1"
    by (simp add: sample_run sample_processed chunkIndices_def)
  from ordinals_contiguous [OF g, of 0] l
  have "chunkIndices 0 (run emptyDb ?evs) = [0]" by simp
  with g show ?thesis by simp
qed

text \<open>
  Claim C5 as stated fails. Ingest invoked twice for the sample document inserts its
  one chunk twice, each time with the ordinal 0; nothing removes the chunks of the
  first invocation.
\<close>

theorem ordinals_repeat:
  "chunkIndices 0 (run emptyDb twiceIngested) = [0, 0]
   \<and> chunkIndices 0 (run emptyDb twiceIngested)
       \<noteq> [0..<length (chunkIndices 0 (run emptyDb twiceIngested))]
   \<and> \<not> sorted_wrt (<) (chunkIndices 0 (run emptyDb twiceIngested))"
proof -
  let ?db1 = "fst (serve sampleDb sampleRequest sampleEnv)"
  have r: "run emptyDb twiceIngested = fst (serve ?db1 sampleRequest sampleEnv)"
    using run_upload by (simp add: run_def twiceIngested_def)
  have "document_chunks (fst (serve ?db1 sampleRequest sampleEnv)) =
        [\<lparr>chunk_document_id = 0, chunk_content = js ''Hello world. This is a test'',
          chunk_index = 0, chunk_size = 27\<rparr>,
         \<lparr>chunk_document_id = 0, chunk_content = js ''Hello world. This is a test'',
          chunk_index = 0, chunk_size = 27\<rparr>]"
    by (simp add: sample_processed)
       (simp add: serve_def processDownloaded_def extractText_def sampleRequest_def
          sampleEnv_def sampleBlob_def updateDocuments_def
          processedValues_def chunksData_def createTextChunks_def js_def trim_def
          isWhiteSpace_def isTerminator_def loop_simps)
  then have "chunkIndices 0 (run emptyDb twiceIngested) = [0, 0]"
    by (simp add: r chunkIndices_def)
  then show ?thesis by simp
qed

section \<open>Properties of the chat function\<close>

lemma take_excludes_later:
  assumes "distinct xs" and "n < length xs" and "n \<le> i" and "i < length xs"
  shows "xs ! i \<notin> set (take n xs)"
proof
  assume "xs ! i \<in> set (take n xs)"
  then obtain j where j: "j < n" "take n xs ! j = xs ! i"
    using assms(2) by (auto simp: in_set_conv_nth)
  then have "xs ! j = xs ! i" by simp
  with assms j show False
    by (simp add: nth_eq_iff_index_eq)
qed

text \<open>
  With more than ten messages in the conversation, created at different times, the one
  created last is not among the rows of the history query.
\<close>

lemma newest_not_in_history:
  assumes ms: "ms = filter (\<lambda>m. conversation_id m = c) (messages db)"
    and long: "length ms > 10"
    and dist: "distinct (map created_at ms)"
    and mem: "m \<in> set ms"
    and newest: "\<forall>m'\<in>set ms. created_at m' \<le> created_at m"
  shows "m \<notin> set (historyMessages db c)"
proof -
  let ?xs = "sort_key created_at ms"
  have len: "length ?xs > 10" using long by simp
  have d: "distinct (map created_at ?xs)"
    using dist by (simp add: distinct_map)
  then have dx: "distinct ?xs" by (simp add: distinct_map)
  have srt: "sorted (map created_at ?xs)" by simp
  from mem have "m \<in> set ?xs" by simp
  then have "\<exists>i < length ?xs. ?xs ! i = m"
    unfolding in_set_conv_nth .
  then obtain i where i: "i < length ?xs" "?xs ! i = m"
    by blast
  have "10 \<le> i"
  proof (rule ccontr)
    assume "\<not> 10 \<le> i"
    then have lt: "i < 10" by simp
    have "created_at (?xs ! i) \<le> created_at (?xs ! 10)"
      using srt lt len by (simp add: sorted_iff_nth_mono)
    moreover have "?xs ! 10 \<in> set ms" using len nth_mem [of 10 ?xs] by simp
    then have "created_at (?xs ! 10) \<le> created_at m" using newest by blast
    ultimately have "created_at (?xs ! 10) = created_at (?xs ! i)" using i by simp
    then have "map created_at ?xs ! 10 = map created_at ?xs ! i"
      using len i by simp
    moreover have "10 < length (map created_at ?xs)" "i < length (map created_at ?xs)"
      using len i by simp_all
    ultimately have "10 = i"
      using d nth_eq_iff_index_eq [of "map created_at ?xs" 10 i] by blast
    with lt show False by simp
  qed
  from take_excludes_later [OF dx len this i(1)] i(2) ms
  show ?thesis by (simp add: historyMessages_def)
qed

text \<open>
  Claim C3 fails on the code. The query orders by \<open>created_at\<close> ascending and then
  limits to 10, which keeps the ten oldest rows; the comment beside it says
  \<open>Last 10 messages for context\<close>. For the conversation of eleven messages the history is
  built from the first ten, the newest message \<open>q6\<close> is not in it and the oldest \<open>q1\<close>
  is, and the text differs from the one built from the last ten.
\<close>

theorem history_is_first_ten:
  "length (filter (\<lambda>m. conversation_id m = 1) (messages chatDb)) = 11
   \<and> historyMessages chatDb 1 = take 10 longConversation
   \<and> chatMessage 11 ''user'' ''q6'' \<notin> set (historyMessages chatDb 1)
   \<and> chatMessage 1 ''user'' ''q1'' \<in> set (historyMessages chatDb 1)
   \<and> conversationHistory chatDb (Some 1) = join newlines (map historyLine (take 10 longConversation))
   \<and> conversationHistory chatDb (Some 1) \<noteq> join newlines (map historyLine (drop 1 longConversation))"
  by (simp add: historyMessages_def conversationHistory_def chatDb_def longConversation_def
        chatMessage_def historyLine_def newlines_def js_def)

lemma startsWith_iff: "startsWith s k \<longleftrightarrow> (\<exists>r. s = k @ r)"
  by (induction s k rule: startsWith.induct) auto

lemma includes_js_iff: "includes_js s k \<longleftrightarrow> (\<exists>p r. s = p @ k @ r)"
proof (induction s)
  case Nil
  then show ?case by auto
next
  case (Cons c cs)
  show ?case
  proof
    assume "includes_js (c # cs) k"
    then consider "startsWith (c # cs) k" | "includes_js cs k" by auto
    then show "\<exists>p r. c # cs = p @ k @ r"
    proof cases
      case 1
      then obtain r where "c # cs = k @ r" by (auto simp: startsWith_iff)
      then have "c # cs = [] @ k @ r" by simp
      then show ?thesis by blast
    next
      case 2
      with Cons obtain p r where "cs = p @ k @ r" by blast
      then have "c # cs = (c # p) @ k @ r" by simp
      then show ?thesis by blast
    qed
  next
    assume "\<exists>p r. c # cs = p @ k @ r"
    then obtain p r where e: "c # cs = p @ k @ r" by blast
    show "includes_js (c # cs) k"
    proof (cases p)
      case Nil
      with e have "startsWith (c # cs) k" by (auto simp: startsWith_iff)
      then show ?thesis by simp
    next
      case (Cons a p')
      with e have "cs = p' @ k @ r" by simp
      with Cons.IH have "includes_js cs k" by blast
      then show ?thesis by simp
    qed
  qed
qed

text \<open>
  The keyword filter, on the documents it is given: a document is selected if and only
  if its content is not empty and, in lower case, contains as a substring one of the
  pieces longer than 3 characters that the lower-cased question has between space
  characters (U+0020).
\<close>

lemma keyword_filter:
  "d \<in> set (consideredDocs db userId) \<Longrightarrow>
   d \<in> set (relevantDocs toLowerCase db userId message) \<longleftrightarrow>
   (\<exists>c. content d = Some c \<and> c \<noteq> [] \<and>
        (\<exists>k\<in>set (splitChar 32 (toLowerCase message)).
            length k > 3 \<and> (\<exists>p r. toLowerCase c = p @ k @ r)))"
proof -
  assume d: "d \<in> set (consideredDocs db userId)"
  then have "length (consideredDocs db userId) > 0" by (cases "consideredDocs db userId") auto
  then have "relevantDocs toLowerCase db userId message =
             filter (isRelevant toLowerCase message) (consideredDocs db userId)"
    by (simp add: relevantDocs_def)
  with d show ?thesis
    by (cases "content d")
       (auto simp: isRelevant_def questionKeywords_def list_ex_iff includes_js_iff)
qed

text \<open>
  Had the lookup answered with user 7, the filter would select the biology document for
  the question \<open>what is photosynthesis\<close>, and not for the question of two lines
  \<open>explain\<close>, line feed, \<open>photosynthesis\<close>, whose only keyword is the whole question: the
  filter cuts at the space character, not at white space.
\<close>

lemma filter_with_user:
  "biologyDoc \<in> set (relevantDocs asciiLower biologyDb (Some 7) (js ''what is photosynthesis''))
   \<and> js ''photosynthesis'' \<in> set (whitespaceTokens (asciiLower twoLineQuestion))
   \<and> questionKeywords asciiLower twoLineQuestion = [twoLineQuestion]
   \<and> biologyDoc \<notin> set (relevantDocs asciiLower biologyDb (Some 7) twoLineQuestion)"
  by (simp add: whitespaceTokens_def asciiLower_def twoLineQuestion_def js_def isWhiteSpace_def
        consideredDocs_def relevantDocs_def biologyDb_def biologyDoc_def isRelevant_def
        questionKeywords_def)

text \<open>
  The client of the handler has no session, so the lookup answers with no user, the
  guard \<open>if (userId)\<close> fails, and the handler selects no document, whatever the store
  and the request are.
\<close>

lemma no_user: "getUser (createClient supabaseUrl supabaseServiceKey) = None"
  by (simp add: getUser_def createClient_def)

lemma nothing_selected:
  "selectDocuments toLowerCase db supabaseUrl supabaseServiceKey req = []"
  by (simp add: selectDocuments_def no_user relevantDocs_def consideredDocs_def)



end
